theory Spec2Isabelle
  imports Complex_Main "HOL-Library.Log_Nat"
begin

section \<open>JavaScript values\<close>

text \<open>
  Step and condition parameters are \<^verbatim>\<open>Record<string, unknown>\<close>: untyped JSON-like
  values.  A finite number is the rational it denotes (milliseconds, pixel coordinates,
  colour channels, thresholds such as 0.9); NaN and the infinities are not values of
  \<open>jsval\<close>.  Comparisons of numbers are exact in JavaScript, and so are the differences of
  clock readings (integers far below \<open>2 ^ 53\<close>); the one subtraction of the code whose
  operands come from a script, in \<^verbatim>\<open>checkPixelColor\<close>, is rounded as IEEE 754 rounds it
  (section on numbers below).
\<close>

datatype jsval =
    JUndefined
  | JNull
  | JBool bool
  | JNum rat
  | JStr string
  | JArr "jsval list"
  | JObj "(string \<times> jsval) list"

type_synonym params = "(string \<times> jsval) list"

text \<open>Property read \<^verbatim>\<open>params.k\<close>: a missing key reads as \<^verbatim>\<open>undefined\<close>.\<close>

definition getProp :: "params \<Rightarrow> string \<Rightarrow> jsval" where
  "getProp p k = (case map_of p k of None \<Rightarrow> JUndefined | Some v \<Rightarrow> v)"

text \<open>JavaScript truthiness, as used by \<^verbatim>\<open>if (v)\<close>, \<^verbatim>\<open>!v\<close>, \<^verbatim>\<open>a || b\<close> and \<^verbatim>\<open>a && b\<close>.\<close>

fun truthy :: "jsval \<Rightarrow> bool" where
  "truthy JUndefined = False"
| "truthy JNull = False"
| "truthy (JBool b) = b"
| "truthy (JNum n) = (n \<noteq> 0)"
| "truthy (JStr s) = (s \<noteq> [])"
| "truthy (JArr xs) = True"
| "truthy (JObj kvs) = True"

text \<open>\<^verbatim>\<open>a || d\<close>\<close>

definition orElse :: "jsval \<Rightarrow> jsval \<Rightarrow> jsval" where
  "orElse a d = (if truthy a then a else d)"

text \<open>
  Strict equality \<^verbatim>\<open>a === b\<close>.  Primitives compare by value; arrays and objects compare by
  reference, and two values that reach the engine from different places of a script are
  different references.
\<close>

fun strictEq :: "jsval \<Rightarrow> jsval \<Rightarrow> bool" where
  "strictEq (JArr xs) b = False"
| "strictEq (JObj kvs) b = False"
| "strictEq a b = (a = b)"

text \<open>
  Optional chaining \<^verbatim>\<open>v?.k\<close>: \<^verbatim>\<open>undefined\<close> on \<^verbatim>\<open>null\<close> and \<^verbatim>\<open>undefined\<close>, the property
  of an object, and \<^verbatim>\<open>undefined\<close> for the own data properties of the other values.
\<close>

fun optChain :: "jsval \<Rightarrow> string \<Rightarrow> jsval" where
  "optChain (JObj kvs) k = getProp kvs k"
| "optChain v k = JUndefined"

text \<open>
  The source casts parameters with \<^verbatim>\<open>as number\<close> and \<^verbatim>\<open>as PixelColor\<close> without a check.
  The casts are modelled by projections that are exact on values of the named type.
\<close>

record PixelColor =
  r :: rat
  g :: rat
  b :: rat

fun asNumber :: "jsval \<Rightarrow> rat option" where
  "asNumber (JNum n) = Some n"
| "asNumber v = None"

definition asPixelColor :: "jsval \<Rightarrow> PixelColor option" where
  "asPixelColor v =
     (case v of
        JObj kvs \<Rightarrow>
          (case (asNumber (getProp kvs ''r''), asNumber (getProp kvs ''g''), asNumber (getProp kvs ''b'')) of
             (Some cr, Some cg, Some cb) \<Rightarrow> Some \<lparr>r = cr, g = cg, b = cb\<rparr>
           | _ \<Rightarrow> None)
      | _ \<Rightarrow> None)"

definition colorObj :: "rat \<Rightarrow> rat \<Rightarrow> rat \<Rightarrow> jsval" where
  "colorObj cr cg cb = JObj [(''r'', JNum cr), (''g'', JNum cg), (''b'', JNum cb)]"


section \<open>Numbers: the rounding of binary64\<close>

text \<open>
  A JavaScript number is an IEEE 754 binary64 value, and \<^verbatim>\<open>x - y\<close> is the exact difference
  rounded to the nearest such value, ties to the even significand.

  \<open>binaryExponent x\<close> is the \<open>e\<close> with \<open>2 powi e \<le> x < 2 powi (e + 1)\<close> for a positive \<open>x\<close>,
  found from the bit lengths of numerator and denominator.
\<close>

definition binaryExponent :: "rat \<Rightarrow> int" where
  "binaryExponent x =
     (let k = bitlen (fst (quotient_of x)) - bitlen (snd (quotient_of x))
      in if 2 powi k \<le> x then k else k - 1)"

text \<open>The nearest integer, a tie going to the even one.\<close>

definition roundHalfEven :: "rat \<Rightarrow> int" where
  "roundHalfEven m =
     (let f = \<lfloor>m\<rfloor>; d = m - of_int f
      in if d < 1 / 2 then f else if 1 / 2 < d then f + 1 else if even f then f else f + 1)"

text \<open>
  The binary64 value nearest to \<open>x\<close>: 53 significant bits, the exponent not below that of the
  subnormal numbers (\<open>- 1022\<close>), and \<open>None\<close> for a result of magnitude \<open>2 powi 1024\<close> or more,
  which is \<^verbatim>\<open>Infinity\<close> or \<^verbatim>\<open>-Infinity\<close>.
\<close>

definition roundDouble :: "rat \<Rightarrow> rat option" where
  "roundDouble x =
     (if x = 0 then Some 0
      else let m = \<bar>x\<bar>;
               e = max (binaryExponent m) (- 1022);
               ulp = 2 powi (e - 52);
               y = of_int (roundHalfEven (m / ulp)) * ulp
           in if 2 powi 1024 \<le> y then None else Some (if x < 0 then - y else y))"

text \<open>
  \<^verbatim>\<open>Math.abs(x - y)\<close>, with \<open>None\<close> for \<^verbatim>\<open>Infinity\<close>, and \<^verbatim>\<open>d <= t\<close> for such a \<open>d\<close> and a
  finite \<open>t\<close>: \<^verbatim>\<open>Infinity <= t\<close> is \<^verbatim>\<open>false\<close>.
\<close>

definition absDiff :: "rat \<Rightarrow> rat \<Rightarrow> rat option" where
  "absDiff x y = map_option abs (roundDouble (x - y))"

definition lessEq :: "rat option \<Rightarrow> rat \<Rightarrow> bool" where
  "lessEq d t = (case d of None \<Rightarrow> False | Some v \<Rightarrow> v \<le> t)"


section \<open>The data model (types.ts)\<close>

record WaitCondition =
  ctype :: string
  cparams :: params
  ctimeout :: rat

record AutomationStep =
  action :: string
  params :: params
  timeout :: "rat option"
  waitAfter :: "rat option"
  condition :: "WaitCondition option"

record AutomationScript =
  name :: string
  description :: "string option"
  steps :: "AutomationStep list"
  setupSteps :: "AutomationStep list option"
  teardown :: "AutomationStep list option"

text \<open>
  Thrown values.  The source throws \<^verbatim>\<open>Error\<close> objects whose message interpolates the data
  carried here; \<^verbatim>\<open>Rejected\<close> is a rejection of a collaborator call, its message passed
  through.  \<^verbatim>\<open>IllTyped\<close> marks a parameter or reply that is not of the type the source
  casts it to, where the source goes on to compute with it: the coercions (or the
  \<^verbatim>\<open>TypeError\<close>) of JavaScript at that point are not modelled further.
\<close>

datatype error =
    UnknownAction string
  | ConditionNotMet WaitCondition
  | ScreenshotFailed
  | PixelMismatch jsval jsval
  | ImageNotFound jsval
  | AssertionFailed jsval jsval jsval
  | GameNotRunning
  | GameStillRunning
  | Rejected string
  | IllTyped

record StepResult =
  saction :: string
  success :: bool
  sduration :: rat
  serror :: "error option"

record TestResult =
  tname :: string
  passed :: bool
  tduration :: rat
  tsteps :: "StepResult list"

section \<open>The collaborators and the runtime\<close>

text \<open>
  The four collaborators of \<^verbatim>\<open>AutomationContext\<close> are injected at construction.  A call of one
  of their methods is a value of \<open>call\<close>, with the arguments as the engine passes them; the
  collaborator answers with a returned value or a rejection.
\<close>

datatype call =
    Launch jsval
  | Stop
  | Restart
  | ForceKill
  | IsRunning
  | SearchConsole jsval jsval
  | WaitForConsolePattern jsval jsval
  | SendCommand jsval
  | SetCvar jsval jsval
  | GetCvar jsval
  | LoadMap jsval
  | ExecConfig jsval
  | MoveMouse jsval jsval
  | MoveMouseRelative jsval jsval
  | MoveMouseToWindow jsval jsval
  | ClickAt jsval jsval jsval
  | ClickMouse jsval
  | DoubleClick jsval
  | Drag jsval jsval jsval jsval jsval
  | Scroll jsval jsval
  | TypeText jsval jsval
  | PressKey jsval
  | PressKeyWithModifiers jsval jsval
  | SendKeyCombo jsval
  | ToggleConsole
  | FocusWindow
  | FindWindow jsval
  | SaveScreenshot jsval
  | GetPixelColor jsval jsval
  | FindImage jsval jsval jsval
  | WaitForImage jsval jsval jsval

datatype reply = Returned jsval | Threw string

datatype event =
    EvScriptStart string
  | EvPhase string
  | EvStepStart string params
  | EvStepComplete StepResult
  | EvScriptComplete TestResult
  | EvLog jsval jsval
  | EvAbort

text \<open>
  Everything outside the engine is a world \<open>'w\<close>: \<open>now\<close> is \<^verbatim>\<open>Date.now()\<close>, \<open>timer ms\<close> is the
  world after \<^verbatim>\<open>setTimeout(resolve, ms)\<close> has fired, \<open>collab\<close> answers a collaborator call,
  \<open>listeners\<close> runs the listeners registered for an emitted event.  A collaborator call
  always settles: it returns or it rejects.

  Other code can call the public \<^verbatim>\<open>abort()\<close> of the engine while the engine is suspended in
  an \<^verbatim>\<open>await\<close> or while its listeners run: \<open>abortCalls\<close> counts the calls made so far.  The
  engine reads its flag only between such points, and finds it set when the count has
  changed (\<open>resume\<close> below).  Other calls into the engine from outside while a script runs
  (\<^verbatim>\<open>setVariable\<close>, \<^verbatim>\<open>clearVariables\<close>, a second \<^verbatim>\<open>runScript\<close>) and listeners that throw are
  not modelled.
\<close>

record 'w AutomationContext =
  now :: "'w \<Rightarrow> rat"
  timer :: "jsval \<Rightarrow> 'w \<Rightarrow> 'w"
  collab :: "call \<Rightarrow> 'w \<Rightarrow> reply \<times> 'w"
  listeners :: "event \<Rightarrow> 'w \<Rightarrow> 'w"
  abortCalls :: "'w \<Rightarrow> nat"

text \<open>
  The private fields of \<^verbatim>\<open>AutomationFramework\<close>.  \<open>emitted\<close> is the sequence of events passed
  to \<^verbatim>\<open>emit\<close> so far, kept to observe which steps were started.
\<close>

record 'w engine =
  running :: bool
  aborted :: bool
  currentScript :: "AutomationScript option"
  stepResults :: "StepResult list"
  variables :: "jsval \<rightharpoonup> jsval"
  emitted :: "event list"
  world :: 'w

text \<open>A computation of the engine either completes with a value or throws.\<close>

type_synonym ('a, 'w) total = "'w engine \<Rightarrow> (error + 'a) \<times> 'w engine"

text \<open>A computation that contains a polling loop may also not return: \<open>None\<close>.\<close>

type_synonym ('a, 'w) comp = "'w engine \<Rightarrow> ((error + 'a) \<times> 'w engine) option"

text \<open>
  The engine resumes in world \<open>w'\<close>: \<^verbatim>\<open>this.aborted\<close> is \<^verbatim>\<open>true\<close> if it was, or if \<^verbatim>\<open>abort()\<close>
  was called since the engine last looked.
\<close>

definition resume :: "'w AutomationContext \<Rightarrow> 'w \<Rightarrow> 'w engine \<Rightarrow> 'w engine" where
  "resume ctx w' s =
     s\<lparr>aborted := aborted s \<or> abortCalls ctx w' \<noteq> abortCalls ctx (world s), world := w'\<rparr>"

text \<open>\<^verbatim>\<open>this.emit(...)\<close>, \<^verbatim>\<open>await this.delay(ms)\<close> and a call of a collaborator's method.  The
  two synchronous calls (\<^verbatim>\<open>isRunning\<close>, \<^verbatim>\<open>searchConsole\<close>) go the same way as the awaited ones.\<close>

definition emit :: "'w AutomationContext \<Rightarrow> event \<Rightarrow> 'w engine \<Rightarrow> 'w engine" where
  "emit ctx ev s = resume ctx (listeners ctx ev (world s)) (s\<lparr>emitted := emitted s @ [ev]\<rparr>)"

definition delay :: "'w AutomationContext \<Rightarrow> jsval \<Rightarrow> 'w engine \<Rightarrow> 'w engine" where
  "delay ctx ms s = resume ctx (timer ctx ms (world s)) s"

definition await :: "'w AutomationContext \<Rightarrow> call \<Rightarrow> (jsval, 'w) total" where
  "await ctx c s =
     (case collab ctx c (world s) of
        (Returned v, w') \<Rightarrow> (Inr v, resume ctx w' s)
      | (Threw m, w') \<Rightarrow> (Inl (Rejected m), resume ctx w' s))"

section \<open>ScreenCapture.checkPixelColor\<close>

definition checkPixelColor ::
  "'w AutomationContext \<Rightarrow> jsval \<Rightarrow> jsval \<Rightarrow> PixelColor \<Rightarrow> rat \<Rightarrow> (bool, 'w) total" where
  "checkPixelColor ctx x y expected tolerance s =
     (case await ctx (GetPixelColor x y) s of
        (Inl e, s') \<Rightarrow> (Inl e, s')
      | (Inr actual, s') \<Rightarrow>
          if \<not> truthy actual then (Inr False, s')
          else (case asPixelColor actual of
                  None \<Rightarrow> (Inl IllTyped, s')
                | Some a \<Rightarrow>
                    let dr = absDiff (r a) (r expected);
                        dg = absDiff (g a) (g expected);
                        db = absDiff (b a) (b expected)
                    in (Inr (lessEq dr tolerance \<and> lessEq dg tolerance \<and> lessEq db tolerance),
                        s')))"

section \<open>AutomationFramework.checkCondition\<close>

definition checkCondition :: "'w AutomationContext \<Rightarrow> WaitCondition \<Rightarrow> (bool, 'w) total" where
  "checkCondition ctx cond s =
     (if ctype cond = ''console_pattern'' then
        (case await ctx (SearchConsole (getProp (cparams cond) ''pattern'') (JNum 100)) s of
           (Inl e, s') \<Rightarrow> (Inl e, s')
         | (Inr output, s') \<Rightarrow>
             (case output of
                JArr ls \<Rightarrow> (Inr (length ls > 0), s')
              | _ \<Rightarrow> (Inl IllTyped, s')))
      else if ctype cond = ''pixel_color'' then
        (case (asPixelColor (getProp (cparams cond) ''expected''),
               asNumber (orElse (getProp (cparams cond) ''tolerance'') (JNum 10))) of
           (Some expected, Some tolerance) \<Rightarrow>
             checkPixelColor ctx (getProp (cparams cond) ''x'') (getProp (cparams cond) ''y'')
               expected tolerance s
         | _ \<Rightarrow> (Inl IllTyped, s))
      else if ctype cond = ''cvar_value'' then
        (case await ctx (GetCvar (getProp (cparams cond) ''name'')) s of
           (Inl e, s') \<Rightarrow> (Inl e, s')
         | (Inr cvar, s') \<Rightarrow>
             (Inr (strictEq (optChain cvar ''value'') (getProp (cparams cond) ''expected'')), s'))
      else if ctype cond = ''window_exists'' then
        (case await ctx (FindWindow (getProp (cparams cond) ''title'')) s of
           (Inl e, s') \<Rightarrow> (Inl e, s')
         | (Inr window, s') \<Rightarrow> (Inr (window \<noteq> JNull), s'))
      else if ctype cond = ''timeout'' then (Inr True, s)
      else (Inr False, s))"


section \<open>ScreenCapture.waitForPixelColor\<close>

text \<open>
  The \<^verbatim>\<open>while\<close> loop of \<^verbatim>\<open>waitForPixelColor\<close>; \<open>pos\<close> is the pair of the coordinates
  \<^verbatim>\<open>x\<close> and \<^verbatim>\<open>y\<close>, \<open>startTime\<close> the local variable of that name.
\<close>

partial_function (option) waitForPixelColor_loop ::
  "'w AutomationContext \<Rightarrow> jsval \<times> jsval \<Rightarrow> PixelColor \<Rightarrow> rat \<Rightarrow> rat \<Rightarrow> rat \<Rightarrow> (bool, 'w) comp"
where
  "waitForPixelColor_loop ctx pos expected tmo tolerance startTime s =
     (if now ctx (world s) - startTime < tmo then
        (case checkPixelColor ctx (fst pos) (snd pos) expected tolerance s of
           (Inl e, s') \<Rightarrow> Some (Inl e, s')
         | (Inr matches, s') \<Rightarrow>
             if matches then Some (Inr True, s')
             else waitForPixelColor_loop ctx pos expected tmo tolerance startTime
                    (delay ctx (JNum 200) s'))
      else Some (Inr False, s))"

definition waitForPixelColor ::
  "'w AutomationContext \<Rightarrow> jsval \<Rightarrow> jsval \<Rightarrow> PixelColor \<Rightarrow> rat \<Rightarrow> rat \<Rightarrow> (bool, 'w) comp" where
  "waitForPixelColor ctx x y expected tmo tolerance s =
     waitForPixelColor_loop ctx (x, y) expected tmo tolerance (now ctx (world s)) s"

section \<open>AutomationFramework.waitForCondition\<close>

partial_function (option) waitForCondition_loop ::
  "'w AutomationContext \<Rightarrow> WaitCondition \<Rightarrow> rat \<Rightarrow> rat \<Rightarrow> (bool, 'w) comp"
where
  "waitForCondition_loop ctx cond startTime tmo s =
     (if now ctx (world s) - startTime < tmo then
        (case checkCondition ctx cond s of
           (Inl e, s') \<Rightarrow> Some (Inl e, s')
         | (Inr met, s') \<Rightarrow>
             if met then Some (Inr True, s')
             else waitForCondition_loop ctx cond startTime tmo (delay ctx (JNum 200) s'))
      else Some (Inr False, s))"

text \<open>\<^verbatim>\<open>condition.timeout || 30000\<close>\<close>

definition effectiveTimeout :: "WaitCondition \<Rightarrow> rat" where
  "effectiveTimeout cond = (if ctimeout cond \<noteq> 0 then ctimeout cond else 30000)"

definition waitForCondition :: "'w AutomationContext \<Rightarrow> WaitCondition \<Rightarrow> (bool, 'w) comp" where
  "waitForCondition ctx cond s =
     waitForCondition_loop ctx cond (now ctx (world s)) (effectiveTimeout cond) s"


section \<open>Sequencing and exceptions\<close>

definition ok :: "(unit, 'w) comp" where
  "ok s = Some (Inr (), s)"

definition throw :: "error \<Rightarrow> ('a, 'w) comp" where
  "throw e s = Some (Inl e, s)"

definition lift :: "('a, 'w) total \<Rightarrow> ('a, 'w) comp" where
  "lift m s = Some (m s)"

definition bindE :: "('a, 'w) comp \<Rightarrow> ('a \<Rightarrow> ('b, 'w) comp) \<Rightarrow> ('b, 'w) comp" where
  "bindE m f s =
     (case m s of
        None \<Rightarrow> None
      | Some (Inl e, s') \<Rightarrow> Some (Inl e, s')
      | Some (Inr v, s') \<Rightarrow> f v s')"

text \<open>\<^verbatim>\<open>try { m } catch (error) { h(error) }\<close>\<close>

definition tryCatch :: "('a, 'w) comp \<Rightarrow> (error \<Rightarrow> ('a, 'w) comp) \<Rightarrow> ('a, 'w) comp" where
  "tryCatch m h s =
     (case m s of
        None \<Rightarrow> None
      | Some (Inl e, s') \<Rightarrow> h e s'
      | Some (Inr v, s') \<Rightarrow> Some (Inr v, s'))"

text \<open>
  \<^verbatim>\<open>try { m } finally { fin }\<close>: the outcome of \<open>m\<close> is kept when \<open>fin\<close> completes, and
  replaced when \<open>fin\<close> throws.
\<close>

definition tryFinally :: "('a, 'w) comp \<Rightarrow> (unit, 'w) comp \<Rightarrow> ('a, 'w) comp" where
  "tryFinally m fin s =
     (case m s of
        None \<Rightarrow> None
      | Some (res, s') \<Rightarrow>
          (case fin s' of
             None \<Rightarrow> None
           | Some (Inl e, s'') \<Rightarrow> Some (Inl e, s'')
           | Some (Inr u, s'') \<Rightarrow> Some (res, s'')))"

text \<open>\<^verbatim>\<open>await collaborator.method(...)\<close> with the result discarded.\<close>

definition perform :: "'w AutomationContext \<Rightarrow> call \<Rightarrow> (unit, 'w) comp" where
  "perform ctx c = bindE (lift (await ctx c)) (\<lambda>v. ok)"

text \<open>\<^verbatim>\<open>this.variables.set(k, v)\<close> and \<^verbatim>\<open>this.variables.get(k)\<close>\<close>

definition variablesSet :: "jsval \<Rightarrow> jsval \<Rightarrow> (unit, 'w) comp" where
  "variablesSet k v s = Some (Inr (), s\<lparr>variables := (variables s)(k \<mapsto> v)\<rparr>)"

definition variablesGet :: "'w engine \<Rightarrow> jsval \<Rightarrow> jsval" where
  "variablesGet s k = (case variables s k of None \<Rightarrow> JUndefined | Some v \<Rightarrow> v)"

text \<open>
  Property read \<^verbatim>\<open>v.k\<close> on a collaborator's reply: a \<^verbatim>\<open>TypeError\<close> on \<^verbatim>\<open>null\<close> and
  \<^verbatim>\<open>undefined\<close>.
\<close>

fun member :: "jsval \<Rightarrow> string \<Rightarrow> (jsval, 'w) comp" where
  "member JUndefined k = throw IllTyped"
| "member JNull k = throw IllTyped"
| "member v k = (\<lambda>s. Some (Inr (optChain v k), s))"

section \<open>AutomationFramework.executeAction\<close>

definition executeAction :: "'w AutomationContext \<Rightarrow> string \<Rightarrow> params \<Rightarrow> (unit, 'w) comp" where
  "executeAction ctx act p =
    (if act = ''launch'' then
       perform ctx (Launch (JObj
         [(''executablePath'', getProp p ''executablePath''),
          (''workingDirectory'', getProp p ''workingDirectory''),
          (''arguments'', getProp p ''args''),
          (''windowedMode'', getProp p ''windowed''),
          (''resolution'',
             if truthy (getProp p ''width'') \<and> truthy (getProp p ''height'')
             then JObj [(''width'', getProp p ''width''), (''height'', getProp p ''height'')]
             else JUndefined)]))
     else if act = ''stop'' then perform ctx Stop
     else if act = ''restart'' then perform ctx Restart
     else if act = ''kill'' then perform ctx ForceKill
     else if act = ''command'' then perform ctx (SendCommand (getProp p ''command''))
     else if act = ''set_cvar'' then perform ctx (SetCvar (getProp p ''name'') (getProp p ''value''))
     else if act = ''get_cvar'' then
       bindE (lift (await ctx (GetCvar (getProp p ''name'')))) (\<lambda>cvar.
         if truthy (getProp p ''storeAs'')
         then variablesSet (getProp p ''storeAs'') (optChain cvar ''value'')
         else ok)
     else if act = ''load_map'' then perform ctx (LoadMap (getProp p ''map''))
     else if act = ''exec_config'' then perform ctx (ExecConfig (getProp p ''path''))
     else if act = ''mouse_move'' then
       (if truthy (getProp p ''relative'') then
          perform ctx (MoveMouseRelative (getProp p ''x'') (getProp p ''y''))
        else if truthy (getProp p ''window'') then
          perform ctx (MoveMouseToWindow (getProp p ''x'') (getProp p ''y''))
        else perform ctx (MoveMouse (getProp p ''x'') (getProp p ''y'')))
     else if act = ''mouse_click'' then
       (if getProp p ''x'' \<noteq> JUndefined \<and> getProp p ''y'' \<noteq> JUndefined then
          perform ctx (ClickAt (getProp p ''x'') (getProp p ''y'')
            (orElse (getProp p ''button'') (JStr ''left'')))
        else perform ctx (ClickMouse (orElse (getProp p ''button'') (JStr ''left''))))
     else if act = ''double_click'' then
       perform ctx (DoubleClick (orElse (getProp p ''button'') (JStr ''left'')))
     else if act = ''drag'' then
       perform ctx (Drag (getProp p ''startX'') (getProp p ''startY'')
         (getProp p ''endX'') (getProp p ''endY'')
         (orElse (getProp p ''button'') (JStr ''left'')))
     else if act = ''scroll'' then
       perform ctx (Scroll (getProp p ''direction'') (orElse (getProp p ''clicks'') (JNum 3)))
     else if act = ''type'' then
       perform ctx (TypeText (getProp p ''text'') (getProp p ''delay''))
     else if act = ''press_key'' then
       (if truthy (getProp p ''modifiers'') then
          perform ctx (PressKeyWithModifiers (getProp p ''key'') (getProp p ''modifiers''))
        else perform ctx (PressKey (getProp p ''key'')))
     else if act = ''key_combo'' then perform ctx (SendKeyCombo (getProp p ''combo''))
     else if act = ''toggle_console'' then perform ctx ToggleConsole
     else if act = ''focus_window'' then perform ctx FocusWindow
     else if act = ''screenshot'' then
       bindE (lift (await ctx (SaveScreenshot (getProp p ''path'')))) (\<lambda>result.
         if \<not> truthy result then throw ScreenshotFailed else ok)
     else if act = ''check_pixel'' then
       (case (asPixelColor (getProp p ''expected''),
              asNumber (orElse (getProp p ''tolerance'') (JNum 10))) of
          (Some expected, Some tolerance) \<Rightarrow>
            bindE (lift (checkPixelColor ctx (getProp p ''x'') (getProp p ''y'') expected tolerance))
              (\<lambda>matches.
                 if \<not> matches then throw (PixelMismatch (getProp p ''x'') (getProp p ''y''))
                 else ok)
        | _ \<Rightarrow> throw IllTyped)
     else if act = ''find_image'' then
       bindE (lift (await ctx (FindImage (getProp p ''template'') (getProp p ''region'')
                (orElse (getProp p ''threshold'') (JNum (9 / 10)))))) (\<lambda>match.
       bindE (member match ''found'') (\<lambda>found.
         if \<not> truthy found then throw (ImageNotFound (getProp p ''template''))
         else
           bindE (if truthy (getProp p ''storeX'')
                  then variablesSet (getProp p ''storeX'') (optChain match ''x'')
                  else ok) (\<lambda>u.
           if truthy (getProp p ''storeY'')
           then variablesSet (getProp p ''storeY'') (optChain match ''y'')
           else ok)))
     else if act = ''wait'' then
       (\<lambda>s. Some (Inr (), delay ctx (orElse (getProp p ''ms'') (JNum 1000)) s))
     else if act = ''wait_for_console'' then
       perform ctx (WaitForConsolePattern (getProp p ''pattern'')
         (orElse (getProp p ''timeout'') (JNum 30000)))
     else if act = ''wait_for_pixel'' then
       (case (asPixelColor (getProp p ''expected''),
              asNumber (orElse (getProp p ''timeout'') (JNum 30000)),
              asNumber (orElse (getProp p ''tolerance'') (JNum 10))) of
          (Some expected, Some tmo, Some tolerance) \<Rightarrow>
            bindE (waitForPixelColor ctx (getProp p ''x'') (getProp p ''y'') expected tmo tolerance)
              (\<lambda>found. ok)
        | _ \<Rightarrow> throw IllTyped)
     else if act = ''wait_for_image'' then
       bindE (lift (await ctx (WaitForImage (getProp p ''template'')
                (orElse (getProp p ''timeout'') (JNum 30000))
                (orElse (getProp p ''threshold'') (JNum (9 / 10)))))) (\<lambda>imageResult.
       bindE (member imageResult ''found'') (\<lambda>found.
         if \<not> truthy found then throw (ImageNotFound (getProp p ''template'')) else ok))
     else if act = ''assert'' then
       (\<lambda>s. let v = variablesGet s (getProp p ''variable'') in
            if \<not> strictEq v (getProp p ''expected'')
            then throw (AssertionFailed (getProp p ''variable'') v (getProp p ''expected'')) s
            else ok s)
     else if act = ''assert_running'' then
       bindE (lift (await ctx IsRunning)) (\<lambda>isRunning.
         if \<not> truthy isRunning then throw GameNotRunning else ok)
     else if act = ''assert_not_running'' then
       bindE (lift (await ctx IsRunning)) (\<lambda>isRunning.
         if truthy isRunning then throw GameStillRunning else ok)
     else if act = ''set_variable'' then variablesSet (getProp p ''name'') (getProp p ''value'')
     else if act = ''log'' then
       (\<lambda>s. Some (Inr (), emit ctx (EvLog (getProp p ''message'') (getProp p ''data'')) s))
     else throw (UnknownAction act))"

section \<open>AutomationFramework.executeStep\<close>

text \<open>The body of the \<^verbatim>\<open>try\<close> block, up to the point where the step's result is built.\<close>

definition stepBody :: "'w AutomationContext \<Rightarrow> AutomationStep \<Rightarrow> (unit, 'w) comp" where
  "stepBody ctx step =
     bindE (executeAction ctx (action step) (params step)) (\<lambda>u.
     bindE (case waitAfter step of
              None \<Rightarrow> ok
            | Some ms \<Rightarrow> if ms \<noteq> 0 then (\<lambda>s. Some (Inr (), delay ctx (JNum ms) s)) else ok) (\<lambda>u.
     (case condition step of
        None \<Rightarrow> ok
      | Some cond \<Rightarrow>
          bindE (waitForCondition ctx cond) (\<lambda>conditionMet.
            if \<not> conditionMet then throw (ConditionNotMet cond) else ok))))"

definition recordStep ::
  "'w AutomationContext \<Rightarrow> StepResult \<Rightarrow> 'w engine \<Rightarrow> 'w engine" where
  "recordStep ctx stepResult s =
     emit ctx (EvStepComplete stepResult) (s\<lparr>stepResults := stepResults s @ [stepResult]\<rparr>)"

definition executeStep :: "'w AutomationContext \<Rightarrow> AutomationStep \<Rightarrow> (StepResult, 'w) comp" where
  "executeStep ctx step s =
     (let startTime = now ctx (world s);
          s1 = emit ctx (EvStepStart (action step) (params step)) s
      in tryCatch
           (bindE (stepBody ctx step) (\<lambda>u s2.
              let stepResult = \<lparr>saction = action step, success = True,
                                 sduration = now ctx (world s2) - startTime, serror = None\<rparr>
              in Some (Inr stepResult, recordStep ctx stepResult s2)))
           (\<lambda>e s2.
              let stepResult = \<lparr>saction = action step, success = False,
                                 sduration = now ctx (world s2) - startTime, serror = Some e\<rparr>
              in throw e (recordStep ctx stepResult s2))
           s1)"

section \<open>AutomationFramework.runScript\<close>

text \<open>
  The \<^verbatim>\<open>for\<close> loop of the setup and of the main phase:
  \<^verbatim>\<open>for (const step of list) { if (this.aborted) break; await this.executeStep(step); }\<close>
\<close>

fun runPhase :: "'w AutomationContext \<Rightarrow> AutomationStep list \<Rightarrow> (unit, 'w) comp" where
  "runPhase ctx [] s = Some (Inr (), s)"
| "runPhase ctx (step # rest) s =
     (if aborted s then Some (Inr (), s)
      else (case executeStep ctx step s of
              None \<Rightarrow> None
            | Some (Inl e, s') \<Rightarrow> Some (Inl e, s')
            | Some (Inr stepResult, s') \<Rightarrow> runPhase ctx rest s'))"

text \<open>
  The \<^verbatim>\<open>for\<close> loop of the teardown phase:
  \<^verbatim>\<open>for (const step of script.teardown) { try { await this.executeStep(step); } catch { } }\<close>
\<close>

fun runTeardown :: "'w AutomationContext \<Rightarrow> AutomationStep list \<Rightarrow> (unit, 'w) comp" where
  "runTeardown ctx [] s = Some (Inr (), s)"
| "runTeardown ctx (step # rest) s =
     (case tryCatch (bindE (executeStep ctx step) (\<lambda>stepResult. ok)) (\<lambda>e. ok) s of
        None \<Rightarrow> None
      | Some (Inl e, s') \<Rightarrow> Some (Inl e, s')
      | Some (Inr u, s') \<Rightarrow> runTeardown ctx rest s')"

text \<open>The \<^verbatim>\<open>try\<close> block of \<^verbatim>\<open>runScript\<close>: the setup phase, then the main phase.\<close>

definition setupPhase :: "'w AutomationContext \<Rightarrow> AutomationScript \<Rightarrow> (unit, 'w) comp" where
  "setupPhase ctx script s =
     (case setupSteps script of
        None \<Rightarrow> ok s
      | Some list \<Rightarrow>
          if length list > 0 then runPhase ctx list (emit ctx (EvPhase ''setup'') s) else ok s)"

definition mainPhase :: "'w AutomationContext \<Rightarrow> AutomationScript \<Rightarrow> (unit, 'w) comp" where
  "mainPhase ctx script s =
     (if \<not> aborted s then runPhase ctx (steps script) (emit ctx (EvPhase ''main'') s) else ok s)"

text \<open>The \<^verbatim>\<open>catch\<close> block: the synthetic record of the error.\<close>

definition errorRecord :: "error \<Rightarrow> StepResult" where
  "errorRecord e = \<lparr>saction = ''error'', success = False, sduration = 0, serror = Some e\<rparr>"

definition recordError :: "error \<Rightarrow> (unit, 'w) comp" where
  "recordError e s = Some (Inr (), s\<lparr>stepResults := stepResults s @ [errorRecord e]\<rparr>)"

text \<open>The \<^verbatim>\<open>finally\<close> block.\<close>

definition teardownPhase :: "'w AutomationContext \<Rightarrow> AutomationScript \<Rightarrow> (unit, 'w) comp" where
  "teardownPhase ctx script s =
     (case teardown script of
        None \<Rightarrow> ok s
      | Some list \<Rightarrow>
          if length list > 0 then runTeardown ctx list (emit ctx (EvPhase ''teardown'') s)
          else ok s)"

text \<open>The statements of \<^verbatim>\<open>runScript\<close> before its \<^verbatim>\<open>try\<close>.\<close>

definition scriptStart :: "'w AutomationContext \<Rightarrow> AutomationScript \<Rightarrow> 'w engine \<Rightarrow> 'w engine" where
  "scriptStart ctx script s =
     emit ctx (EvScriptStart (name script))
       (s\<lparr>running := True, aborted := False, currentScript := Some script, stepResults := []\<rparr>)"

definition tryBlock :: "'w AutomationContext \<Rightarrow> AutomationScript \<Rightarrow> (unit, 'w) comp" where
  "tryBlock ctx script = bindE (setupPhase ctx script) (\<lambda>u. mainPhase ctx script)"

definition runScript :: "'w AutomationContext \<Rightarrow> AutomationScript \<Rightarrow> (TestResult, 'w) comp" where
  "runScript ctx script s =
     (let startTime = now ctx (world s);
          s1 = scriptStart ctx script s
      in bindE
           (tryFinally (tryCatch (tryBlock ctx script) recordError) (teardownPhase ctx script))
           (\<lambda>u s2.
              let s3 = s2\<lparr>running := False\<rparr>;
                  result = \<lparr>tname = name script,
                            passed = list_all success (stepResults s3),
                            tduration = now ctx (world s3) - startTime,
                            tsteps = stepResults s3\<rparr>
              in Some (Inr result, emit ctx (EvScriptComplete result) s3))
           s1)"

section \<open>The rest of the public interface\<close>

definition abort :: "'w AutomationContext \<Rightarrow> 'w engine \<Rightarrow> 'w engine" where
  "abort ctx s = emit ctx EvAbort (s\<lparr>aborted := True\<rparr>)"

definition isRunning :: "'w engine \<Rightarrow> bool" where
  "isRunning s = running s"

definition getStepResults :: "'w engine \<Rightarrow> StepResult list" where
  "getStepResults s = stepResults s"

definition getVariable :: "'w engine \<Rightarrow> string \<Rightarrow> jsval" where
  "getVariable s k = variablesGet s (JStr k)"

definition setVariable :: "string \<Rightarrow> jsval \<Rightarrow> 'w engine \<Rightarrow> 'w engine" where
  "setVariable k v s = s\<lparr>variables := (variables s)(JStr k \<mapsto> v)\<rparr>"

definition clearVariables :: "'w engine \<Rightarrow> 'w engine" where
  "clearVariables s = s\<lparr>variables := Map.empty\<rparr>"

text \<open>The engine as the constructor leaves it.\<close>

definition newEngine :: "'w \<Rightarrow> 'w engine" where
  "newEngine w = \<lparr>running = False, aborted = False, currentScript = None, stepResults = [],
                   variables = Map.empty, emitted = [], world = w\<rparr>"


section \<open>Observations and assumptions on the runtime\<close>

text \<open>The steps started so far: the \<^verbatim>\<open>stepStart\<close> events, in the order of their emission.\<close>

fun stepStarts :: "event list \<Rightarrow> (string \<times> params) list" where
  "stepStarts [] = []"
| "stepStarts (EvStepStart a p # evs) = (a, p) # stepStarts evs"
| "stepStarts (ev # evs) = stepStarts evs"

definition started :: "'w engine \<Rightarrow> (string \<times> params) list" where
  "started s = stepStarts (emitted s)"

definition stepKey :: "AutomationStep \<Rightarrow> string \<times> params" where
  "stepKey step = (action step, params step)"

text \<open>
  The clock does not run backwards across a collaborator call, and the 200 ms timer of the
  polling loops fires no earlier than 200 ms after it was set.
\<close>

definition steadyClock :: "'w AutomationContext \<Rightarrow> bool" where
  "steadyClock ctx \<longleftrightarrow>
     (\<forall>c w. now ctx w \<le> now ctx (snd (collab ctx c w))) \<and>
     (\<forall>w. now ctx w + 200 \<le> now ctx (timer ctx (JNum 200) w))"

text \<open>
  A collaborator call takes at most \<open>d\<close> ms and the 200 ms timer fires at most \<open>j\<close> ms late.
\<close>

definition boundedLatency :: "'w AutomationContext \<Rightarrow> rat \<Rightarrow> rat \<Rightarrow> bool" where
  "boundedLatency ctx d j \<longleftrightarrow>
     (\<forall>c w. now ctx (snd (collab ctx c w)) \<le> now ctx w + d) \<and>
     (\<forall>w. now ctx (timer ctx (JNum 200) w) \<le> now ctx w + 200 + j)"

section \<open>What a step may change\<close>

text \<open>The entries of a script: an absent list reads as the empty one.\<close>

definition setupList :: "AutomationScript \<Rightarrow> AutomationStep list" where
  "setupList script = (case setupSteps script of None \<Rightarrow> [] | Some list \<Rightarrow> list)"

definition teardownList :: "AutomationScript \<Rightarrow> AutomationStep list" where
  "teardownList script = (case teardown script of None \<Rightarrow> [] | Some list \<Rightarrow> list)"

text \<open>
  The keys of \<open>variables\<close> that an action is instructed to write: \<^verbatim>\<open>storeAs\<close> of
  \<^verbatim>\<open>get_cvar\<close>, \<^verbatim>\<open>storeX\<close> and \<^verbatim>\<open>storeY\<close> of \<^verbatim>\<open>find_image\<close>, \<^verbatim>\<open>name\<close> of \<^verbatim>\<open>set_variable\<close>.
\<close>

definition writeKeys :: "string \<Rightarrow> params \<Rightarrow> jsval list" where
  "writeKeys act p =
     (if act = ''get_cvar'' then
        (if truthy (getProp p ''storeAs'') then [getProp p ''storeAs''] else [])
      else if act = ''find_image'' then
        (if truthy (getProp p ''storeX'') then [getProp p ''storeX''] else []) @
        (if truthy (getProp p ''storeY'') then [getProp p ''storeY''] else [])
      else if act = ''set_variable'' then [getProp p ''name'']
      else [])"

definition scriptWrites :: "AutomationScript \<Rightarrow> jsval set" where
  "scriptWrites script =
     (\<Union>step \<in> set (setupList script @ steps script @ teardownList script).
        set (writeKeys (action step) (params step)))"

text \<open>
  \<open>frame K s s'\<close>: from \<open>s\<close> to \<open>s'\<close> no step result was recorded, no step was started and
  no variable outside \<open>K\<close> was written.
\<close>

definition frame :: "jsval set \<Rightarrow> 'w engine \<Rightarrow> 'w engine \<Rightarrow> bool" where
  "frame K s s' \<longleftrightarrow>
     stepResults s' = stepResults s \<and> started s' = started s \<and>
     (\<forall>k. k \<notin> K \<longrightarrow> variables s' k = variables s k)"

definition keeps :: "jsval set \<Rightarrow> ('a, 'w) comp \<Rightarrow> bool" where
  "keeps K m \<longleftrightarrow> (\<forall>s res s'. m s = Some (res, s') \<longrightarrow> frame K s s')"

text \<open>A computation that returns from every state.\<close>

definition returns :: "('a, 'w) comp \<Rightarrow> bool" where
  "returns m \<longleftrightarrow> (\<forall>s. \<exists>res s'. m s = Some (res, s'))"

text \<open>A computation that throws no \<^verbatim>\<open>Unknown action\<close> error.\<close>

definition knownOnly :: "('a, 'w) comp \<Rightarrow> bool" where
  "knownOnly m \<longleftrightarrow> (\<forall>s e s' a. m s = Some (Inl e, s') \<longrightarrow> e \<noteq> UnknownAction a)"

section \<open>The abort flag\<close>

text \<open>
  \<open>flagged s\<close> is \<open>s\<close> with the abort flag set.  A computation is blind to the flag when
  running it with the flag set gives what running it from \<open>s\<close> gives, with the flag set in
  the final state: it never reads the flag.
\<close>

definition flagged :: "'w engine \<Rightarrow> 'w engine" where
  "flagged s = s\<lparr>aborted := True\<rparr>"

definition blind :: "('a, 'w) comp \<Rightarrow> bool" where
  "blind m \<longleftrightarrow> (\<forall>s. m (flagged s) = map_option (apsnd flagged) (m s))"

section \<open>Names for parts of the behaviour\<close>

text \<open>The action vocabulary: the labels of the \<^verbatim>\<open>switch\<close> in \<^verbatim>\<open>executeAction\<close>.\<close>

definition vocabulary :: "string list" where
  "vocabulary =
     [''launch'', ''stop'', ''restart'', ''kill'',
      ''command'', ''set_cvar'', ''get_cvar'', ''load_map'', ''exec_config'',
      ''mouse_move'', ''mouse_click'', ''double_click'', ''drag'', ''scroll'', ''type'',
      ''press_key'', ''key_combo'', ''toggle_console'', ''focus_window'',
      ''screenshot'', ''check_pixel'', ''find_image'',
      ''wait'', ''wait_for_console'', ''wait_for_pixel'', ''wait_for_image'',
      ''assert'', ''assert_running'', ''assert_not_running'',
      ''set_variable'', ''log'']"

text \<open>
  The ways a step ends: \<open>stepSucceeds\<close> and \<open>stepFails\<close> record the result of a step that
  was started in state \<open>s\<close> and has reached state \<open>s'\<close>; \<open>afterDelay\<close> is the state after
  the \<^verbatim>\<open>waitAfter\<close> delay, if any.
\<close>

definition stepSucceeds ::
  "'w AutomationContext \<Rightarrow> AutomationStep \<Rightarrow> 'w engine \<Rightarrow> (StepResult, 'w) comp" where
  "stepSucceeds ctx step s s' =
     Some (Inr \<lparr>saction = action step, success = True,
                sduration = now ctx (world s') - now ctx (world s), serror = None\<rparr>,
           recordStep ctx
             \<lparr>saction = action step, success = True,
              sduration = now ctx (world s') - now ctx (world s), serror = None\<rparr> s')"

definition stepFails ::
  "'w AutomationContext \<Rightarrow> AutomationStep \<Rightarrow> error \<Rightarrow> 'w engine \<Rightarrow> (StepResult, 'w) comp" where
  "stepFails ctx step e s s' =
     Some (Inl e,
           recordStep ctx
             \<lparr>saction = action step, success = False,
              sduration = now ctx (world s') - now ctx (world s), serror = Some e\<rparr> s')"

definition afterDelay :: "'w AutomationContext \<Rightarrow> AutomationStep \<Rightarrow> 'w engine \<Rightarrow> 'w engine" where
  "afterDelay ctx step s =
     (case waitAfter step of
        None \<Rightarrow> s
      | Some ms \<Rightarrow> if ms \<noteq> 0 then delay ctx (JNum ms) s else s)"

text \<open>
  \<open>returnsFalseNoEarlier ctx cond s t\<close>: the wait for \<open>cond\<close> started in \<open>s\<close> returns
  \<^verbatim>\<open>false\<close>, and not before \<open>t\<close> ms have passed.
\<close>

definition returnsFalseNoEarlier ::
  "'w AutomationContext \<Rightarrow> WaitCondition \<Rightarrow> 'w engine \<Rightarrow> rat \<Rightarrow> bool" where
  "returnsFalseNoEarlier ctx cond s t \<longleftrightarrow>
     (\<exists>s'. waitForCondition ctx cond s = Some (Inr False, s') \<and>
           t \<le> now ctx (world s') - now ctx (world s))"

section \<open>The action table\<close>

text \<open>
  The table of the actions that are dispatched to one collaborator call: \<open>actionCall act p\<close>
  is the call, with the arguments taken from the parameters \<open>p\<close> of the step.  The six
  actions that the table leaves out are \<^verbatim>\<open>wait\<close> (a timer), \<^verbatim>\<open>wait_for_pixel\<close> (a polling
  loop of \<^verbatim>\<open>ScreenCapture\<close>), \<^verbatim>\<open>assert\<close>, \<^verbatim>\<open>set_variable\<close> and \<^verbatim>\<open>log\<close> (no collaborator), and
  \<^verbatim>\<open>check_pixel\<close> when its parameters are not of the types the source casts them to.
\<close>

definition actionCall :: "string \<Rightarrow> params \<Rightarrow> call option" where
  "actionCall act p =
    (if act = ''launch'' then
       Some (Launch (JObj
         [(''executablePath'', getProp p ''executablePath''),
          (''workingDirectory'', getProp p ''workingDirectory''),
          (''arguments'', getProp p ''args''),
          (''windowedMode'', getProp p ''windowed''),
          (''resolution'',
             if truthy (getProp p ''width'') \<and> truthy (getProp p ''height'')
             then JObj [(''width'', getProp p ''width''), (''height'', getProp p ''height'')]
             else JUndefined)]))
     else if act = ''stop'' then Some Stop
     else if act = ''restart'' then Some Restart
     else if act = ''kill'' then Some ForceKill
     else if act = ''command'' then Some (SendCommand (getProp p ''command''))
     else if act = ''set_cvar'' then Some (SetCvar (getProp p ''name'') (getProp p ''value''))
     else if act = ''get_cvar'' then Some (GetCvar (getProp p ''name''))
     else if act = ''load_map'' then Some (LoadMap (getProp p ''map''))
     else if act = ''exec_config'' then Some (ExecConfig (getProp p ''path''))
     else if act = ''mouse_move'' then
       Some (if truthy (getProp p ''relative'')
             then MoveMouseRelative (getProp p ''x'') (getProp p ''y'')
             else if truthy (getProp p ''window'')
             then MoveMouseToWindow (getProp p ''x'') (getProp p ''y'')
             else MoveMouse (getProp p ''x'') (getProp p ''y''))
     else if act = ''mouse_click'' then
       Some (if getProp p ''x'' \<noteq> JUndefined \<and> getProp p ''y'' \<noteq> JUndefined
             then ClickAt (getProp p ''x'') (getProp p ''y'')
                    (orElse (getProp p ''button'') (JStr ''left''))
             else ClickMouse (orElse (getProp p ''button'') (JStr ''left'')))
     else if act = ''double_click'' then
       Some (DoubleClick (orElse (getProp p ''button'') (JStr ''left'')))
     else if act = ''drag'' then
       Some (Drag (getProp p ''startX'') (getProp p ''startY'')
               (getProp p ''endX'') (getProp p ''endY'')
               (orElse (getProp p ''button'') (JStr ''left'')))
     else if act = ''scroll'' then
       Some (Scroll (getProp p ''direction'') (orElse (getProp p ''clicks'') (JNum 3)))
     else if act = ''type'' then Some (TypeText (getProp p ''text'') (getProp p ''delay''))
     else if act = ''press_key'' then
       Some (if truthy (getProp p ''modifiers'')
             then PressKeyWithModifiers (getProp p ''key'') (getProp p ''modifiers'')
             else PressKey (getProp p ''key''))
     else if act = ''key_combo'' then Some (SendKeyCombo (getProp p ''combo''))
     else if act = ''toggle_console'' then Some ToggleConsole
     else if act = ''focus_window'' then Some FocusWindow
     else if act = ''screenshot'' then Some (SaveScreenshot (getProp p ''path''))
     else if act = ''check_pixel'' then
       (case (asPixelColor (getProp p ''expected''),
              asNumber (orElse (getProp p ''tolerance'') (JNum 10))) of
          (Some expected, Some tolerance) \<Rightarrow> Some (GetPixelColor (getProp p ''x'') (getProp p ''y''))
        | _ \<Rightarrow> None)
     else if act = ''find_image'' then
       Some (FindImage (getProp p ''template'') (getProp p ''region'')
               (orElse (getProp p ''threshold'') (JNum (9 / 10))))
     else if act = ''wait_for_console'' then
       Some (WaitForConsolePattern (getProp p ''pattern'')
               (orElse (getProp p ''timeout'') (JNum 30000)))
     else if act = ''wait_for_image'' then
       Some (WaitForImage (getProp p ''template'')
               (orElse (getProp p ''timeout'') (JNum 30000))
               (orElse (getProp p ''threshold'') (JNum (9 / 10))))
     else if act = ''assert_running'' then Some IsRunning
     else if act = ''assert_not_running'' then Some IsRunning
     else None)"

text \<open>
  What the action makes of the value \<open>v\<close> that its call returned: \<open>None\<close> when the action
  completes, and the error when it throws.  Most actions discard the value.
\<close>

definition replyOutcome :: "string \<Rightarrow> params \<Rightarrow> jsval \<Rightarrow> error option" where
  "replyOutcome act p v =
    (if act = ''screenshot'' then (if truthy v then None else Some ScreenshotFailed)
     else if act = ''check_pixel'' then
       (if \<not> truthy v then Some (PixelMismatch (getProp p ''x'') (getProp p ''y''))
        else (case (asPixelColor v, asPixelColor (getProp p ''expected''),
                    asNumber (orElse (getProp p ''tolerance'') (JNum 10))) of
                (Some a, Some e, Some t) \<Rightarrow>
                  if lessEq (absDiff (r a) (r e)) t \<and> lessEq (absDiff (g a) (g e)) t \<and>
                     lessEq (absDiff (b a) (b e)) t
                  then None
                  else Some (PixelMismatch (getProp p ''x'') (getProp p ''y''))
              | _ \<Rightarrow> Some IllTyped))
     else if act = ''find_image'' \<or> act = ''wait_for_image'' then
       (if v = JUndefined \<or> v = JNull then Some IllTyped
        else if truthy (optChain v ''found'') then None
        else Some (ImageNotFound (getProp p ''template'')))
     else if act = ''assert_running'' then (if truthy v then None else Some GameNotRunning)
     else if act = ''assert_not_running'' then (if truthy v then Some GameStillRunning else None)
     else None)"

section \<open>A fake runtime\<close>

text \<open>
  A world with a clock that only timers advance, collaborators that log their calls and
  answer by a fixed table, and listeners that call \<^verbatim>\<open>abort()\<close> on chosen events.
\<close>

record fakeWorld =
  clock :: rat
  callLog :: "call list"
  aborts :: nat

definition fake :: "(call \<Rightarrow> reply) \<Rightarrow> (event \<Rightarrow> bool) \<Rightarrow> fakeWorld AutomationContext" where
  "fake answer abortsOn =
     \<lparr>now = clock,
      timer = (\<lambda>ms w. w\<lparr>clock := clock w + (case ms of JNum n \<Rightarrow> max n 0 | _ \<Rightarrow> 0)\<rparr>),
      collab = (\<lambda>c w. (answer c, w\<lparr>callLog := callLog w @ [c]\<rparr>)),
      listeners = (\<lambda>ev w. if abortsOn ev then w\<lparr>aborts := Suc (aborts w)\<rparr> else w),
      abortCalls = aborts\<rparr>"

definition fakeStart :: "fakeWorld engine" where
  "fakeStart = newEngine \<lparr>clock = 0, callLog = [], aborts = 0\<rparr>"

definition answerAll :: "jsval \<Rightarrow> call \<Rightarrow> reply" where
  "answerAll v c = Returned v"

definition never :: "event \<Rightarrow> bool" where
  "never ev = False"

text \<open>Scripts to run on the fake runtime.\<close>

definition plainStep :: "string \<Rightarrow> params \<Rightarrow> AutomationStep" where
  "plainStep a p = \<lparr>action = a, params = p, timeout = None, waitAfter = None, condition = None\<rparr>"

text \<open>
  The second main step is not in the vocabulary, and neither is the first teardown step.
\<close>

definition failingScript :: AutomationScript where
  "failingScript =
     \<lparr>name = ''failing'', description = None,
      steps = [plainStep ''toggle_console'' [], plainStep ''frobnicate'' [],
               plainStep ''type'' [(''text'', JStr ''god'')]],
      setupSteps = Some [plainStep ''launch'' [(''executablePath'', JStr ''/bin/x'')]],
      teardown = Some [plainStep ''quit_now'' [],
                       plainStep ''command'' [(''command'', JStr ''quit'')]]\<rparr>"

definition emptyScript :: AutomationScript where
  "emptyScript =
     \<lparr>name = ''empty'', description = None, steps = [], setupSteps = None, teardown = None\<rparr>"

text \<open>The fake runtime whose collaborators answer \<^verbatim>\<open>null\<close> and whose listeners never abort.\<close>

definition quietFake :: "fakeWorld AutomationContext" where
  "quietFake = fake (answerAll JNull) never"

text \<open>What a finished computation on the fake runtime returned, and the clock at its end.\<close>

definition outcomeAt :: "('a, fakeWorld) comp \<Rightarrow> ((error + 'a) \<times> rat) option" where
  "outcomeAt m = map_option (\<lambda>x. (fst x, clock (world (snd x)))) (m fakeStart)"

text \<open>Conditions that the fake runtime never finds true: no window is ever found.\<close>

definition noWindow :: "rat \<Rightarrow> WaitCondition" where
  "noWindow tmo = \<lparr>ctype = ''window_exists'', cparams = [(''title'', JStr ''OpenMoHAA'')],
                   ctimeout = tmo\<rparr>"

text \<open>
  A script that writes the variable \<^verbatim>\<open>y\<close> and asserts that the variable \<^verbatim>\<open>x\<close>, which it
  does not write, is 5.
\<close>

definition chainScript :: AutomationScript where
  "chainScript =
     \<lparr>name = ''chain'', description = None,
      steps = [plainStep ''set_variable'' [(''name'', JStr ''y''), (''value'', JNum 7)],
               plainStep ''assert'' [(''variable'', JStr ''x''), (''expected'', JNum 5)]],
      setupSteps = None, teardown = None\<rparr>"

text \<open>Steps that wait for something the fake runtime never shows.\<close>

definition waitPixelStep :: AutomationStep where
  "waitPixelStep =
     plainStep ''wait_for_pixel''
       [(''x'', JNum 10), (''y'', JNum 20), (''expected'', colorObj 255 0 0),
        (''timeout'', JNum 1000)]"

definition waitConsoleStep :: AutomationStep where
  "waitConsoleStep =
     plainStep ''wait_for_console'' [(''pattern'', JStr ''loaded''), (''timeout'', JNum 1000)]"

definition waitImageStep :: AutomationStep where
  "waitImageStep =
     plainStep ''wait_for_image'' [(''template'', JStr ''menu.png''), (''timeout'', JNum 1000)]"

text \<open>
  The fake collaborators of a run in which nothing ever appears: the console wait answers
  \<^verbatim>\<open>null\<close>, the sampled pixel is black, the image wait answers \<^verbatim>\<open>{found: false, x: 0, y: 0}\<close>.
\<close>

definition nothingAppears :: "call \<Rightarrow> reply" where
  "nothingAppears c =
     (case c of
        GetPixelColor x y \<Rightarrow> Returned (colorObj 0 0 0)
      | WaitForImage t tmo th \<Rightarrow>
          Returned (JObj [(''found'', JBool False), (''x'', JNum 0), (''y'', JNum 0)])
      | _ \<Rightarrow> Returned JNull)"

definition blindFake :: "fakeWorld AutomationContext" where
  "blindFake = fake nothingAppears never"

text \<open>The actions of the steps started by the end of a computation.\<close>

definition startedActions :: "('a, 'w) comp \<Rightarrow> 'w engine \<Rightarrow> string list option" where
  "startedActions m s = map_option (\<lambda>x. map fst (started (snd x))) (m s)"

text \<open>Listeners that call \<^verbatim>\<open>abort()\<close> when the script starts.\<close>

definition onScriptStart :: "event \<Rightarrow> bool" where
  "onScriptStart ev = (case ev of EvScriptStart n \<Rightarrow> True | _ \<Rightarrow> False)"

definition abortingFake :: "fakeWorld AutomationContext" where
  "abortingFake = fake (answerAll JNull) onScriptStart"

section \<open>A runtime that records its interactions\<close>

text \<open>
  What the engine does to the world, one entry for each interaction: a collaborator call,
  a timer that was set and has fired, an event handed to the listeners.
\<close>

datatype obs = Called call | Slept jsval | Heard event

text \<open>
  \<open>traced ctx\<close> is the runtime \<open>ctx\<close> with a journal beside its world: it answers as \<open>ctx\<close>
  does and appends each interaction to the journal.
\<close>

definition traced :: "'w AutomationContext \<Rightarrow> ('w \<times> obs list) AutomationContext" where
  "traced ctx =
     \<lparr>now = (\<lambda>x. now ctx (fst x)),
      timer = (\<lambda>ms x. (timer ctx ms (fst x), snd x @ [Slept ms])),
      collab = (\<lambda>c x. (fst (collab ctx c (fst x)),
                        (snd (collab ctx c (fst x)), snd x @ [Called c]))),
      listeners = (\<lambda>ev x. (listeners ctx ev (fst x), snd x @ [Heard ev])),
      abortCalls = (\<lambda>x. abortCalls ctx (fst x))\<rparr>"

definition journal :: "('w \<times> obs list) engine \<Rightarrow> obs list" where
  "journal s = snd (world s)"

text \<open>
  From \<open>s\<close> to \<open>s'\<close> the journal was extended by entries that satisfy \<open>Q\<close>, and a computation
  that does so from every state.
\<close>

definition extendsBy ::
  "(obs \<Rightarrow> bool) \<Rightarrow> ('w \<times> obs list) engine \<Rightarrow> ('w \<times> obs list) engine \<Rightarrow> bool" where
  "extendsBy Q s s' \<longleftrightarrow> (\<exists>A. journal s' = journal s @ A \<and> list_all Q A)"

definition logs :: "(obs \<Rightarrow> bool) \<Rightarrow> ('a, 'w \<times> obs list) comp \<Rightarrow> bool" where
  "logs Q m \<longleftrightarrow> (\<forall>s res s'. m s = Some (res, s') \<longrightarrow> extendsBy Q s s')"

text \<open>
  Entries other than the two notifications of a step, and the entries of a polling loop:
  collaborator calls and timers of 200 ms.
\<close>

fun inner :: "obs \<Rightarrow> bool" where
  "inner (Heard (EvStepStart a p)) = False"
| "inner (Heard (EvStepComplete sr)) = False"
| "inner e = True"

fun polling :: "obs \<Rightarrow> bool" where
  "polling (Called c) = True"
| "polling (Slept ms) = (ms = JNum 200)"
| "polling (Heard ev) = False"

text \<open>The journal at the end of a computation.\<close>

definition journalAfter ::
  "('a, 'w \<times> obs list) comp \<Rightarrow> ('w \<times> obs list) engine \<Rightarrow> obs list option" where
  "journalAfter m s = map_option (\<lambda>x. journal (snd x)) (m s)"

definition tracedStart :: "(fakeWorld \<times> obs list) engine" where
  "tracedStart = newEngine (\<lparr>clock = 0, callLog = [], aborts = 0\<rparr>, [])"

text \<open>
  Steps that toggle the console and then wait for a window that never exists, for at most
  400 ms: with a \<^verbatim>\<open>waitAfter\<close> of \<open>ms\<close>, and without a condition.
\<close>

definition toggleThenWait :: "rat \<Rightarrow> AutomationStep" where
  "toggleThenWait ms =
     \<lparr>action = ''toggle_console'', params = [], timeout = None, waitAfter = Some ms,
      condition = Some (noWindow 400)\<rparr>"

definition toggleThenPause :: "rat \<Rightarrow> AutomationStep" where
  "toggleThenPause ms =
     \<lparr>action = ''toggle_console'', params = [], timeout = None, waitAfter = Some ms,
      condition = None\<rparr>"

section \<open>Auxiliary facts\<close>

subsection \<open>Rounding\<close>

text \<open>The exponent found is the right one, and it is the only one.\<close>

lemma roundHalfEven_of_int: "roundHalfEven (of_int n) = n"
  by (simp add: roundHalfEven_def)

lemma binaryExponent_bounds:
  assumes "0 < x"
  shows "2 powi (binaryExponent x) \<le> x \<and> x < 2 powi (binaryExponent x + 1)"
proof -
  obtain p q where pq: "quotient_of x = (p, q)" by (cases "quotient_of x")
  have q: "0 < q" using pq by (rule quotient_of_denom_pos)
  have x: "x = of_int p / of_int q" using pq by (rule quotient_of_div)
  have p: "0 < p" using assms q unfolding x by (simp add: zero_less_divide_iff)
  define k where "k = bitlen p - bitlen q"
  have bp: "1 \<le> bitlen p" and bq: "1 \<le> bitlen q" using p q by (simp_all add: bitlen_alt_def)
  have p2: "(of_int p :: rat) < 2 powi (bitlen p)"
  proof -
    have "p < 2 ^ nat (bitlen p)" using bitlen_bounds [OF p] by simp
    hence "(of_int p :: rat) < of_int (2 ^ nat (bitlen p))" by (simp only: of_int_less_iff)
    thus ?thesis using bp by (simp add: power_int_def)
  qed
  have q1: "2 powi (bitlen q - 1) \<le> (of_int q :: rat)"
  proof -
    have "2 ^ nat (bitlen q - 1) \<le> q" using bitlen_bounds [OF q] by simp
    hence "(of_int (2 ^ nat (bitlen q - 1)) :: rat) \<le> of_int q" by (simp only: of_int_le_iff)
    thus ?thesis using bq by (simp add: power_int_def)
  qed
  have qpos: "(0::rat) < of_int q" using q by simp
  have "x * of_int q = of_int p" unfolding x using qpos by simp
  have up: "x < 2 powi (k + 1)"
  proof -
    have "x * 2 powi (bitlen q - 1) \<le> x * of_int q"
      using q1 assms by (simp add: mult_left_mono)
    also have "\<dots> = of_int p" by fact
    also have "\<dots> < 2 powi (bitlen p)" by fact
    also have "\<dots> = 2 powi (k + 1) * 2 powi (bitlen q - 1)"
      by (simp add: k_def flip: power_int_add)
    finally show ?thesis by simp
  qed
  show ?thesis
  proof (cases "2 powi k \<le> x")
    case True
    hence "binaryExponent x = k" by (simp add: binaryExponent_def pq k_def)
    thus ?thesis using True up by simp
  next
    case False
    hence e: "binaryExponent x = k - 1" by (simp add: binaryExponent_def pq k_def)
    have p1: "2 powi (bitlen p - 1) \<le> (of_int p :: rat)"
    proof -
      have "2 ^ nat (bitlen p - 1) \<le> p" using bitlen_bounds [OF p] by simp
      hence "(of_int (2 ^ nat (bitlen p - 1)) :: rat) \<le> of_int p" by (simp only: of_int_le_iff)
      thus ?thesis using bp by (simp add: power_int_def)
    qed
    have q2: "(of_int q :: rat) < 2 powi (bitlen q)"
    proof -
      have "q < 2 ^ nat (bitlen q)" using bitlen_bounds [OF q] by simp
      hence "(of_int q :: rat) < of_int (2 ^ nat (bitlen q))" by (simp only: of_int_less_iff)
      thus ?thesis using bq by (simp add: power_int_def)
    qed
    have "(2::rat) powi (k - 1) * 2 powi (bitlen q) = 2 powi (bitlen p - 1)"
      by (simp add: k_def flip: power_int_add)
    also have "\<dots> \<le> of_int p" by fact
    also have "\<dots> = x * of_int q" using \<open>x * of_int q = of_int p\<close> by simp
    also have "\<dots> \<le> x * 2 powi (bitlen q)" using q2 assms by (simp add: mult_left_mono)
    finally have "2 powi (k - 1) \<le> x" by simp
    thus ?thesis using False e by simp
  qed
qed

lemma binaryExponent_eqI:
  assumes lo: "2 powi e \<le> x" and hi: "x < 2 powi (e + 1)"
  shows "binaryExponent x = e"
proof -
  have "(0::rat) < 2 powi e" by simp
  hence pos: "0 < x" using lo by (rule less_le_trans)
  let ?b = "binaryExponent x"
  have b: "2 powi ?b \<le> x" "x < 2 powi (?b + 1)" using binaryExponent_bounds [OF pos] by simp_all
  have "(2::rat) powi e < 2 powi (?b + 1)" using lo b(2) by simp
  hence 1: "e < ?b + 1"
    by (metis not_less power_int_increasing one_le_numeral)
  have "(2::rat) powi ?b < 2 powi (e + 1)" using hi b(1) by simp
  hence 2: "?b < e + 1"
    by (metis not_less power_int_increasing one_le_numeral)
  show ?thesis using 1 2 by simp
qed

lemma roundDouble_of_int:
  assumes "\<bar>z\<bar> \<le> 2 ^ 53"
  shows "roundDouble (of_int z) = Some (of_int z)"
proof (cases "z = 0")
  case True thus ?thesis by (simp add: roundDouble_def)
next
  case False
  define a where "a = \<bar>z\<bar>"
  have a: "0 < a" "a \<le> 2 ^ 53" using False assms by (simp_all add: a_def)
  define e where "e = binaryExponent (of_int a)"
  have bnd: "2 powi e \<le> (of_int a :: rat)" "(of_int a :: rat) < 2 powi (e + 1)"
    using binaryExponent_bounds [of "of_int a"] a(1) by (simp_all add: e_def)
  have e0: "0 \<le> e"
  proof (rule ccontr)
    assume "\<not> 0 \<le> e"
    hence "e + 1 \<le> 0" by simp
    hence "(2::rat) powi (e + 1) \<le> 2 powi 0" by (rule power_int_increasing) simp
    hence "(of_int a :: rat) < 1" using bnd(2) by simp
    thus False using a(1) by simp
  qed
  have e53: "e \<le> 53"
  proof (rule ccontr)
    assume "\<not> e \<le> 53"
    hence "54 \<le> e" by simp
    hence "(2::rat) powi 54 \<le> 2 powi e" by (rule power_int_increasing) simp
    hence "(2::rat) ^ 54 \<le> of_int a" using bnd(1) by simp
    moreover have "(of_int a :: rat) \<le> of_int (2 ^ 53)" using a(2) by (simp only: of_int_le_iff)
    ultimately show False by simp
  qed
  have int: "\<exists>n. of_int a / ((2::rat) powi (e - 52)) = of_int n \<and> of_int n * (2::rat) powi (e - 52) = of_int a"
  proof (cases "e \<le> 52")
    case True
    have "(2::rat) powi (e - 52) = 1 / 2 ^ nat (52 - e)"
      using True by (cases "e = 52") (simp_all add: power_int_def field_simps)
    hence "of_int a / ((2::rat) powi (e - 52)) = of_int (a * 2 ^ nat (52 - e))
      \<and> of_int (a * 2 ^ nat (52 - e)) * (2::rat) powi (e - 52) = of_int a" by simp
    thus ?thesis by blast
  next
    case False
    hence e: "e = 53" using e53 by simp
    have "(2::rat) ^ 53 \<le> of_int a" using bnd(1) by (simp add: e)
    moreover have "(of_int a :: rat) \<le> of_int (2 ^ 53)" using a(2) by (simp only: of_int_le_iff)
    ultimately have "(of_int a :: rat) = of_int (2 ^ 53)" by simp
    hence "a = 2 ^ 53" by (simp only: of_int_eq_iff)
    hence "of_int a / ((2::rat) powi (e - 52)) = of_int (2 ^ 52)
      \<and> of_int (2 ^ 52) * (2::rat) powi (e - 52) = of_int a" by (simp add: e)
    thus ?thesis by blast
  qed
  then obtain n where n: "of_int a / ((2::rat) powi (e - 52)) = of_int n"
    "of_int n * (2::rat) powi (e - 52) = of_int a" by blast
  have abs: "\<bar>(of_int z :: rat)\<bar> = of_int a" by (simp add: a_def)
  have small: "\<not> (2::rat) powi 1024 \<le> of_int a"
  proof
    assume "(2::rat) powi 1024 \<le> of_int a"
    moreover have "(of_int a :: rat) \<le> of_int (2 ^ 53)" using a(2) by (simp only: of_int_le_iff)
    ultimately have "(2::rat) powi 1024 \<le> 2 powi 53" by simp
    hence "(1024::int) \<le> 53" by (metis not_less power_int_strict_increasing one_less_numeral_iff semiring_norm(76))
    thus False by simp
  qed
  have mx: "max e (- 1022) = e" using e0 by simp
  have "roundDouble (of_int z) = Some (if (of_int z :: rat) < 0 then - of_int a else of_int a)"
    using False small
    by (simp add: roundDouble_def abs e_def [symmetric] mx Let_def n roundHalfEven_of_int
          del: of_int_abs)
  thus ?thesis by (simp add: a_def)
qed

lemma roundDouble_numeral:
  "numeral k \<le> (2::int) ^ 53 \<Longrightarrow> roundDouble (numeral k) = Some (numeral k)"
  "numeral k \<le> (2::int) ^ 53 \<Longrightarrow> roundDouble (- numeral k) = Some (- numeral k)"
  "roundDouble 0 = Some 0" "roundDouble 1 = Some 1" "roundDouble (- 1) = Some (- 1)"
  using roundDouble_of_int [of "numeral k"] roundDouble_of_int [of "- numeral k"]
    roundDouble_of_int [of 0] roundDouble_of_int [of 1] roundDouble_of_int [of "- 1"]
  by simp_all

text \<open>
  The rounded value is within half a unit in the last place of the exact one, so a
  magnitude of 11 or more is not rounded to one of 10 or less.
\<close>

lemma roundHalfEven_near: "of_int (roundHalfEven q) \<ge> q - 1 / 2"
proof -
  have "of_int \<lfloor>q\<rfloor> \<le> q" "q < of_int \<lfloor>q\<rfloor> + 1" by linarith+
  thus ?thesis by (auto simp: roundHalfEven_def Let_def)
qed

lemma roundDouble_lower:
  assumes rd: "roundDouble x = Some d" and big: "1 \<le> \<bar>x\<bar>"
  shows "\<bar>x\<bar> * (1 - 1 / 2 ^ 53) \<le> \<bar>d\<bar>"
proof -
  define m where "m = \<bar>x\<bar>"
  define e where "e = binaryExponent m"
  define ulp :: rat where "ulp = 2 powi (e - 52)"
  define y where "y = of_int (roundHalfEven (m / ulp)) * ulp"
  have m1: "1 \<le> m" using big by (simp add: m_def)
  hence mpos: "0 < m" by simp
  have bnd: "2 powi e \<le> m" "m < 2 powi (e + 1)"
    using binaryExponent_bounds [OF mpos] by (simp_all add: e_def)
  have e0: "0 \<le> e"
  proof (rule ccontr)
    assume "\<not> 0 \<le> e"
    hence "e + 1 \<le> 0" by simp
    hence "(2::rat) powi (e + 1) \<le> 2 powi 0" by (rule power_int_increasing) simp
    thus False using bnd(2) m1 by simp
  qed
  have mx: "max e (- 1022) = e" using e0 by simp
  have x0: "x \<noteq> 0" using big by auto
  have upos: "0 < ulp" by (simp add: ulp_def)
  have "ulp * 2 ^ 52 = 2 powi e"
  proof -
    have "(2::rat) powi ((e - 52) + 52) = 2 powi (e - 52) * 2 powi 52"
      by (rule power_int_add) simp
    thus ?thesis by (simp add: ulp_def)
  qed
  hence u1: "ulp * 2 ^ 52 \<le> m" using bnd(1) by simp
  have "m / ulp - 1 / 2 \<le> of_int (roundHalfEven (m / ulp))" by (rule roundHalfEven_near)
  hence "(m / ulp - 1 / 2) * ulp \<le> y"
    unfolding y_def using upos by (simp only: mult_le_cancel_right_pos)
  moreover have "(m / ulp - 1 / 2) * ulp = m - ulp / 2"
    using upos by (simp add: algebra_simps)
  ultimately have y1: "m - ulp / 2 \<le> y" by simp
  have "ulp / 2 \<le> m / 2 ^ 53" using u1 by (simp add: field_simps)
  with y1 have y2: "m * (1 - 1 / 2 ^ 53) \<le> y" by (simp add: field_simps)
  have "0 < m * (1 - 1 / 2 ^ 53)" using mpos by simp
  with y2 have ypos: "0 < y" by simp
  from rd x0 have "d = (if x < 0 then - y else y)"
    by (simp add: roundDouble_def Let_def m_def [symmetric] e_def [symmetric] mx
        ulp_def [symmetric] y_def [symmetric] split: if_splits)
  hence "\<bar>d\<bar> = y" using ypos by simp
  with y2 show ?thesis by (simp add: m_def)
qed

lemma roundDouble_eleven:
  assumes "11 \<le> \<bar>x\<bar>" shows "\<not> (\<exists>d. roundDouble x = Some d \<and> \<bar>d\<bar> \<le> 10)"
proof
  assume "\<exists>d. roundDouble x = Some d \<and> \<bar>d\<bar> \<le> 10"
  then obtain d where d: "roundDouble x = Some d" "\<bar>d\<bar> \<le> 10" by blast
  from assms have "1 \<le> \<bar>x\<bar>" by simp
  from roundDouble_lower [OF d(1) this] have "\<bar>x\<bar> * (1 - 1 / 2 ^ 53) \<le> \<bar>d\<bar>" .
  moreover have "11 * (1 - 1 / 2 ^ 53) \<le> \<bar>x\<bar> * (1 - 1 / 2 ^ 53)"
    using assms by (simp only: mult_le_cancel_right) simp
  ultimately have "11 * (1 - 1 / 2 ^ 53) \<le> (10::rat)" using d(2) by linarith
  thus False by simp
qed

lemma absDiff_of_int:
  "\<bar>m - n\<bar> \<le> 2 ^ 53 \<Longrightarrow> absDiff (of_int m) (of_int n) = Some (of_int \<bar>m - n\<bar>)"
  using roundDouble_of_int [of "m - n"] by (simp add: absDiff_def)

lemma absDiff_exact:
  assumes "x \<in> \<int>" and "y \<in> \<int>" and "\<bar>x - y\<bar> \<le> 2 ^ 53"
  shows "absDiff x y = Some \<bar>x - y\<bar>"
proof -
  from assms(1) obtain m where m: "x = of_int m" by (rule Ints_cases)
  from assms(2) obtain n where n: "y = of_int n" by (rule Ints_cases)
  have "(of_int \<bar>m - n\<bar> :: rat) \<le> of_int (2 ^ 53)" using assms(3) by (simp add: m n)
  hence "\<bar>m - n\<bar> \<le> 2 ^ 53" by (simp only: of_int_le_iff)
  from absDiff_of_int [OF this] show ?thesis by (simp add: m n)
qed

lemmas round_simps = absDiff_def lessEq_def roundDouble_numeral

text \<open>A difference that is not a binary64 value: \<open>2 ^ 53 + 1\<close> is rounded to \<open>2 ^ 53\<close>.\<close>

lemma roundDouble_tie: "roundDouble 9007199254740993 = Some 9007199254740992"
proof -
  have e: "binaryExponent 9007199254740993 = 53"
    by (rule binaryExponent_eqI) simp_all
  have f: "\<lfloor>(9007199254740993::rat) / 2\<rfloor> = 4503599627370496"
    by (rule floor_unique) simp_all
  have h: "roundHalfEven (9007199254740993 / 2) = 4503599627370496"
    by (simp add: roundHalfEven_def Let_def f)
  show ?thesis by (simp add: roundDouble_def e h)
qed



subsection \<open>The clock and the polling loops\<close>

lemma resume_world [simp]: "world (resume ctx w' s) = w'"
  by (simp add: resume_def)

lemma await_clock:
  "steadyClock ctx \<Longrightarrow> now ctx (world s) \<le> now ctx (world (snd (await ctx c s)))"
  unfolding steadyClock_def await_def
  apply (cases "collab ctx c (world s)")
  subgoal for rep w'
    apply (cases rep)
    apply simp_all
    apply (metis snd_conv)+
    done
  done

lemma checkPixelColor_clock:
  "steadyClock ctx \<Longrightarrow>
     now ctx (world s) \<le> now ctx (world (snd (checkPixelColor ctx x y e t s)))"
  using await_clock [of ctx s "GetPixelColor x y"]
  by (simp add: checkPixelColor_def Let_def case_prod_unfold split: sum.split option.split)

lemma checkCondition_clock:
  "steadyClock ctx \<Longrightarrow> now ctx (world s) \<le> now ctx (world (snd (checkCondition ctx cond s)))"
  using await_clock [of ctx s] checkPixelColor_clock [of ctx s]
  by (simp add: checkCondition_def case_prod_unfold split: sum.split option.split jsval.split)

lemma delay_clock:
  "steadyClock ctx \<Longrightarrow> now ctx (world s) + 200 \<le> now ctx (world (delay ctx (JNum 200) s))"
  by (simp add: steadyClock_def delay_def)

lemma waitForCondition_loop_returns:
  assumes steady: "steadyClock ctx"
  shows "st + T - now ctx (world s) \<le> 200 * of_nat k
           \<Longrightarrow> \<exists>res s'. waitForCondition_loop ctx cond st T s = Some (res, s')"
proof (induction k arbitrary: s)
  case 0
  then have "\<not> now ctx (world s) - st < T" by simp
  then show ?case by (subst waitForCondition_loop.simps) simp
next
  case (Suc k)
  show ?case
  proof (cases "now ctx (world s) - st < T")
    case False
    then show ?thesis by (subst waitForCondition_loop.simps) simp
  next
    case True
    obtain res s1 where chk: "checkCondition ctx cond s = (res, s1)"
      by (cases "checkCondition ctx cond s")
    have c1: "now ctx (world s) \<le> now ctx (world s1)"
      using checkCondition_clock [OF steady, of s cond] chk by simp
    have c2: "now ctx (world s1) + 200 \<le> now ctx (world (delay ctx (JNum 200) s1))"
      by (rule delay_clock [OF steady])
    have "st + T - now ctx (world (delay ctx (JNum 200) s1)) \<le> 200 * of_nat k"
      using Suc.prems c1 c2 by (simp add: algebra_simps)
    from Suc.IH [OF this] obtain res' s' where
      rec: "waitForCondition_loop ctx cond st T (delay ctx (JNum 200) s1) = Some (res', s')"
      by blast
    show ?thesis
      by (subst waitForCondition_loop.simps) (simp add: True chk rec split: sum.split)
  qed
qed

lemma ex_poll_bound: "\<exists>k::nat. (x::rat) \<le> 200 * of_nat k"
proof -
  obtain k :: nat where "x \<le> of_nat k" using real_arch_simple by blast
  moreover have "(of_nat k :: rat) \<le> 200 * of_nat k" by simp
  ultimately show ?thesis by (meson order_trans)
qed

lemma waitForCondition_returns:
  "steadyClock ctx \<Longrightarrow> \<exists>res s'. waitForCondition ctx cond s = Some (res, s')"
  unfolding waitForCondition_def
  using ex_poll_bound waitForCondition_loop_returns by blast

lemma latency_nonneg:
  assumes "steadyClock ctx" "boundedLatency ctx d j"
  shows "0 \<le> d" "0 \<le> j"
proof -
  have "now ctx w \<le> now ctx w + d" for w
    using assms unfolding steadyClock_def boundedLatency_def by (meson order_trans)
  then show "0 \<le> d" by simp
  have "now ctx w + 200 \<le> now ctx w + 200 + j" for w
    using assms unfolding steadyClock_def boundedLatency_def by (meson order_trans)
  then show "0 \<le> j" by simp
qed

lemma await_latency:
  "boundedLatency ctx d j \<Longrightarrow> now ctx (world (snd (await ctx c s))) \<le> now ctx (world s) + d"
  unfolding boundedLatency_def await_def
  by (cases "collab ctx c (world s)") (auto split: reply.split, (metis snd_conv)+)

lemma checkPixelColor_latency:
  "boundedLatency ctx d j \<Longrightarrow>
     now ctx (world (snd (checkPixelColor ctx x y e t s))) \<le> now ctx (world s) + d"
  using await_latency [of ctx d j "GetPixelColor x y" s]
  by (simp add: checkPixelColor_def Let_def case_prod_unfold split: sum.split option.split)

lemma checkCondition_latency:
  "boundedLatency ctx d j \<Longrightarrow> 0 \<le> d \<Longrightarrow>
     now ctx (world (snd (checkCondition ctx cond s))) \<le> now ctx (world s) + d"
  using await_latency [of ctx d j _ s] checkPixelColor_latency [of ctx d j _ _ _ _ s]
  by (simp add: checkCondition_def case_prod_unfold split: sum.split option.split jsval.split)

lemma delay_latency:
  "boundedLatency ctx d j \<Longrightarrow>
     now ctx (world (delay ctx (JNum 200) s)) \<le> now ctx (world s) + 200 + j"
  by (simp add: boundedLatency_def delay_def)

text \<open>The loop on a condition that no check finds true.\<close>

lemma waitForCondition_loop_never:
  assumes steady: "steadyClock ctx"
    and never: "\<And>s. fst (checkCondition ctx cond s) = Inr False"
  shows "st + T - now ctx (world s) \<le> 200 * of_nat k \<Longrightarrow>
         \<exists>s'. waitForCondition_loop ctx cond st T s = Some (Inr False, s') \<and>
              T \<le> now ctx (world s') - st \<and>
              (\<not> now ctx (world s) - st < T \<longrightarrow> s' = s) \<and>
              (\<forall>d j. boundedLatency ctx d j \<longrightarrow> now ctx (world s) - st < T \<longrightarrow>
                     now ctx (world s') - st < T + 200 + j + d)"
proof (induction k arbitrary: s)
  case 0
  then have "\<not> now ctx (world s) - st < T" by simp
  then show ?case by (subst waitForCondition_loop.simps) simp
next
  case (Suc k)
  show ?case
  proof (cases "now ctx (world s) - st < T")
    case False
    then show ?thesis by (subst waitForCondition_loop.simps) simp
  next
    case True
    obtain s1 where chk: "checkCondition ctx cond s = (Inr False, s1)"
      using never [of s] by (cases "checkCondition ctx cond s") simp
    let ?s2 = "delay ctx (JNum 200) s1"
    have c1: "now ctx (world s) \<le> now ctx (world s1)"
      using checkCondition_clock [OF steady, of s cond] chk by simp
    have c2: "now ctx (world s1) + 200 \<le> now ctx (world ?s2)"
      by (rule delay_clock [OF steady])
    have "st + T - now ctx (world ?s2) \<le> 200 * of_nat k"
      using Suc.prems c1 c2 by (simp add: algebra_simps)
    from Suc.IH [OF this] obtain s' where
      rec: "waitForCondition_loop ctx cond st T ?s2 = Some (Inr False, s')"
      and low: "T \<le> now ctx (world s') - st"
      and stay: "\<not> now ctx (world ?s2) - st < T \<longrightarrow> s' = ?s2"
      and up: "\<forall>d j. boundedLatency ctx d j \<longrightarrow> now ctx (world ?s2) - st < T \<longrightarrow>
                 now ctx (world s') - st < T + 200 + j + d"
      by blast
    have run: "waitForCondition_loop ctx cond st T s = Some (Inr False, s')"
      by (subst waitForCondition_loop.simps) (simp add: True chk rec)
    have "now ctx (world s') - st < T + 200 + j + d" if lat: "boundedLatency ctx d j" for d j
    proof (cases "now ctx (world ?s2) - st < T")
      case True
      with up lat show ?thesis by blast
    next
      case False
      with stay have eq: "s' = ?s2" by blast
      have d0: "0 \<le> d" using latency_nonneg [OF steady lat] by simp
      have "now ctx (world s1) \<le> now ctx (world s) + d"
        using checkCondition_latency [OF lat d0, of cond s] chk by simp
      moreover have "now ctx (world ?s2) \<le> now ctx (world s1) + 200 + j"
        by (rule delay_latency [OF lat])
      ultimately show ?thesis using \<open>now ctx (world s) - st < T\<close> eq by simp
    qed
    with run low True show ?thesis by blast
  qed
qed

subsection \<open>The clock of the fake runtime\<close>

lemma fake_steady: "steadyClock (fake answer abortsOn)"
  by (simp add: steadyClock_def fake_def)

lemma fake_latency: "boundedLatency (fake answer abortsOn) 0 0"
  by (simp add: boundedLatency_def fake_def)

subsection \<open>Colours\<close>

lemma asPixelColor_colorObj [simp]:
  "asPixelColor (colorObj cr cg cb) = Some \<lparr>r = cr, g = cg, b = cb\<rparr>"
  by (simp add: asPixelColor_def colorObj_def getProp_def)

lemma truthy_colorObj [simp]: "truthy (colorObj cr cg cb)"
  by (simp add: colorObj_def)

lemma colorObj_not_null [simp]: "colorObj cr cg cb \<noteq> JNull"
  by (simp add: colorObj_def)

subsection \<open>Frames\<close>

lemma frame_refl [simp]: "frame K s s"
  by (simp add: frame_def)

lemma frame_trans: "frame K s s1 \<Longrightarrow> frame K s1 s2 \<Longrightarrow> frame K s s2"
  by (simp add: frame_def)

lemma frame_mono: "frame K s s' \<Longrightarrow> K \<subseteq> K' \<Longrightarrow> frame K' s s'"
  by (auto simp: frame_def)

lemma frame_resume [simp]: "frame K s (resume ctx w s)"
  by (simp add: frame_def resume_def started_def)

lemma frame_await: "frame K s (snd (await ctx c s))"
  by (simp add: await_def case_prod_unfold split: reply.split)

lemma frame_delay [simp]: "frame K s (delay ctx ms s)"
  by (simp add: delay_def)

lemma stepStarts_append [simp]: "stepStarts (xs @ ys) = stepStarts xs @ stepStarts ys"
  by (induction xs rule: stepStarts.induct) simp_all

lemma frame_emit_log [simp]: "frame K s (emit ctx (EvLog m d) s)"
  by (simp add: frame_def emit_def resume_def started_def)

lemma frame_checkPixelColor: "frame K s (snd (checkPixelColor ctx x y e t s))"
  using frame_await [of K s ctx "GetPixelColor x y"]
  by (simp add: checkPixelColor_def Let_def case_prod_unfold split: sum.split option.split)

lemma frame_checkCondition: "frame K s (snd (checkCondition ctx cond s))"
  using frame_await [of K s ctx] frame_checkPixelColor [of K s ctx]
  by (simp add: checkCondition_def case_prod_unfold split: sum.split option.split jsval.split)

lemma keeps_mono: "keeps K m \<Longrightarrow> K \<subseteq> K' \<Longrightarrow> keeps K' m"
  unfolding keeps_def by (blast intro: frame_mono)

lemma keeps_ok [simp]: "keeps K ok"
  by (simp add: keeps_def ok_def)

lemma keeps_throw [simp]: "keeps K (throw e)"
  by (simp add: keeps_def throw_def)

lemma keeps_bindE:
  "keeps K m \<Longrightarrow> (\<And>v. keeps K (f v)) \<Longrightarrow> keeps K (bindE m f)"
  unfolding keeps_def bindE_def
  by (fastforce split: option.splits sum.splits prod.splits intro: frame_trans)

lemma keeps_await [simp]: "keeps K (lift (await ctx c))"
  using frame_await [of K _ ctx c] by (auto simp: keeps_def lift_def) (metis snd_conv)

lemma keeps_perform [simp]: "keeps K (perform ctx c)"
  by (simp add: perform_def keeps_bindE)

lemma keeps_variablesSet: "k \<in> K \<Longrightarrow> keeps K (variablesSet k v)"
  by (auto simp: keeps_def variablesSet_def frame_def started_def)

lemma keeps_member [simp]: "keeps K (member v k)"
  by (cases v) (auto simp: keeps_def throw_def)

lemma keeps_checkPixelColor [simp]: "keeps K (lift (checkPixelColor ctx x y e t))"
  using frame_checkPixelColor [of K _ ctx x y e t]
  by (auto simp: keeps_def lift_def) (metis snd_conv)

lemma keeps_delay [simp]: "keeps K (\<lambda>s. Some (Inr (), delay ctx ms s))"
  by (simp add: keeps_def)

lemma keeps_log [simp]: "keeps K (\<lambda>s. Some (Inr (), emit ctx (EvLog m d) s))"
  by (simp add: keeps_def)

lemma keeps_assert [simp]:
  "keeps K (\<lambda>s. let v = variablesGet s k in
                if \<not> strictEq v x then throw (AssertionFailed k v x) s else ok s)"
  by (simp add: keeps_def Let_def throw_def ok_def)

lemma waitForPixelColor_loop_frame:
  assumes run: "waitForPixelColor_loop ctx0 pos0 e0 tmo0 tol0 st0 s0 = Some y0"
  shows "frame K s0 (snd y0)"
proof (rule waitForPixelColor_loop.raw_induct
    [where P = "\<lambda>ctx pos e tmo tol st s y. frame K s (snd y)", OF _ run])
  fix loop and ctx :: "'a AutomationContext" and pos e tmo tol st s y
  assume IH: "\<And>ctx pos e tmo tol st s y.
                 loop ctx pos e tmo tol st s = Some y \<Longrightarrow> frame K s (snd y)"
    and eq: "(if now ctx (world s) - st < tmo then
               (case checkPixelColor ctx (fst pos) (snd pos) e tol s of
                  (Inl err, s') \<Rightarrow> Some (Inl err, s')
                | (Inr matches, s') \<Rightarrow>
                    if matches then Some (Inr True, s')
                    else loop ctx pos e tmo tol st (delay ctx (JNum 200) s'))
             else Some (Inr False, s)) = Some y"
  show "frame K s (snd y)"
  proof (cases "now ctx (world s) - st < tmo")
    case False
    with eq show ?thesis by auto
  next
    case True
    obtain res s1 where chk: "checkPixelColor ctx (fst pos) (snd pos) e tol s = (res, s1)"
      by (cases "checkPixelColor ctx (fst pos) (snd pos) e tol s")
    have f1: "frame K s s1"
      using frame_checkPixelColor [of K s ctx "fst pos" "snd pos" e tol] chk by simp
    show ?thesis
    proof (cases res)
      case (Inl err)
      with eq True chk f1 show ?thesis by auto
    next
      case (Inr matches)
      show ?thesis
      proof (cases matches)
        case True
        with eq \<open>now ctx (world s) - st < tmo\<close> chk f1 Inr show ?thesis by auto
      next
        case False
        with eq \<open>now ctx (world s) - st < tmo\<close> chk Inr
        have "loop ctx pos e tmo tol st (delay ctx (JNum 200) s1) = Some y" by simp
        from IH [OF this] have "frame K (delay ctx (JNum 200) s1) (snd y)" .
        with f1 show ?thesis by (meson frame_delay frame_trans)
      qed
    qed
  qed
qed

lemma waitForCondition_loop_frame:
  assumes run: "waitForCondition_loop ctx0 cond0 st0 tmo0 s0 = Some y0"
  shows "frame K s0 (snd y0)"
proof (rule waitForCondition_loop.raw_induct
    [where P = "\<lambda>ctx cond st tmo s y. frame K s (snd y)", OF _ run])
  fix loop and ctx :: "'a AutomationContext" and cond st tmo s y
  assume IH: "\<And>ctx cond st tmo s y. loop ctx cond st tmo s = Some y \<Longrightarrow> frame K s (snd y)"
    and eq: "(if now ctx (world s) - st < tmo then
               (case checkCondition ctx cond s of
                  (Inl err, s') \<Rightarrow> Some (Inl err, s')
                | (Inr met, s') \<Rightarrow>
                    if met then Some (Inr True, s')
                    else loop ctx cond st tmo (delay ctx (JNum 200) s'))
             else Some (Inr False, s)) = Some y"
  show "frame K s (snd y)"
  proof (cases "now ctx (world s) - st < tmo")
    case False
    with eq show ?thesis by auto
  next
    case True
    obtain res s1 where chk: "checkCondition ctx cond s = (res, s1)"
      by (cases "checkCondition ctx cond s")
    have f1: "frame K s s1"
      using frame_checkCondition [of K s ctx cond] chk by simp
    show ?thesis
    proof (cases res)
      case (Inl err)
      with eq True chk f1 show ?thesis by auto
    next
      case (Inr met)
      show ?thesis
      proof (cases met)
        case True
        with eq \<open>now ctx (world s) - st < tmo\<close> chk f1 Inr show ?thesis by auto
      next
        case False
        with eq \<open>now ctx (world s) - st < tmo\<close> chk Inr
        have "loop ctx cond st tmo (delay ctx (JNum 200) s1) = Some y" by simp
        from IH [OF this] have "frame K (delay ctx (JNum 200) s1) (snd y)" .
        with f1 show ?thesis by (meson frame_delay frame_trans)
      qed
    qed
  qed
qed

lemma keeps_waitForPixelColor [simp]: "keeps K (waitForPixelColor ctx x y e tmo tol)"
  unfolding keeps_def waitForPixelColor_def
  using waitForPixelColor_loop_frame by (metis snd_conv)

lemma keeps_waitForCondition [simp]: "keeps K (waitForCondition ctx cond)"
  unfolding keeps_def waitForCondition_def
  using waitForCondition_loop_frame by (metis snd_conv)

lemma keeps_executeAction: "keeps (set (writeKeys act p)) (executeAction ctx act p)"
  unfolding executeAction_def writeKeys_def
  by (simp add: keeps_bindE keeps_variablesSet split: option.split prod.split)

subsection \<open>Returning\<close>

lemma returns_ok [simp]: "returns ok"
  by (simp add: returns_def ok_def)

lemma returns_throw [simp]: "returns (throw e)"
  by (simp add: returns_def throw_def)

lemma returns_lift [simp]: "returns (lift m)"
  by (simp add: returns_def lift_def)

lemma returns_bindE: "returns m \<Longrightarrow> (\<And>v. returns (f v)) \<Longrightarrow> returns (bindE m f)"
  unfolding returns_def bindE_def
proof
  fix s
  assume m: "\<forall>s. \<exists>res s'. m s = Some (res, s')" and f: "\<And>v. \<forall>s. \<exists>res s'. f v s = Some (res, s')"
  from m obtain res s1 where ms: "m s = Some (res, s1)" by blast
  show "\<exists>res s'. (case m s of None \<Rightarrow> None | Some (Inl e, s') \<Rightarrow> Some (Inl e, s')
                   | Some (Inr v, s') \<Rightarrow> f v s') = Some (res, s')"
  proof (cases res)
    case (Inl e)
    with ms show ?thesis by simp
  next
    case (Inr v)
    with ms f [of v] show ?thesis by simp
  qed
qed

lemma returns_perform [simp]: "returns (perform ctx c)"
  by (simp add: perform_def returns_bindE)

lemma returns_variablesSet [simp]: "returns (variablesSet k v)"
  by (simp add: returns_def variablesSet_def)

lemma returns_member [simp]: "returns (member v k)"
  by (cases v) (simp_all add: returns_def throw_def)

lemma returns_Some [simp]: "returns (\<lambda>s. Some (Inr v, f s))"
  by (simp add: returns_def)

lemma returns_assert [simp]:
  "returns (\<lambda>s. let v = variablesGet s k in
                if \<not> strictEq v x then throw (AssertionFailed k v x) s else ok s)"
  by (simp add: returns_def Let_def throw_def ok_def)

lemma waitForPixelColor_loop_returns:
  assumes steady: "steadyClock ctx"
  shows "st + T - now ctx (world s) \<le> 200 * of_nat k
           \<Longrightarrow> \<exists>res s'. waitForPixelColor_loop ctx pos e T tol st s = Some (res, s')"
proof (induction k arbitrary: s)
  case 0
  then have "\<not> now ctx (world s) - st < T" by simp
  then show ?case by (subst waitForPixelColor_loop.simps) simp
next
  case (Suc k)
  show ?case
  proof (cases "now ctx (world s) - st < T")
    case False
    then show ?thesis by (subst waitForPixelColor_loop.simps) simp
  next
    case True
    obtain res s1 where chk: "checkPixelColor ctx (fst pos) (snd pos) e tol s = (res, s1)"
      by (cases "checkPixelColor ctx (fst pos) (snd pos) e tol s")
    have c1: "now ctx (world s) \<le> now ctx (world s1)"
      using checkPixelColor_clock [OF steady, of s "fst pos" "snd pos" e tol] chk by simp
    have c2: "now ctx (world s1) + 200 \<le> now ctx (world (delay ctx (JNum 200) s1))"
      by (rule delay_clock [OF steady])
    have "st + T - now ctx (world (delay ctx (JNum 200) s1)) \<le> 200 * of_nat k"
      using Suc.prems c1 c2 by (simp add: algebra_simps)
    from Suc.IH [OF this] obtain res' s' where
      rec: "waitForPixelColor_loop ctx pos e T tol st (delay ctx (JNum 200) s1) = Some (res', s')"
      by blast
    show ?thesis
      by (subst waitForPixelColor_loop.simps) (simp add: True chk rec split: sum.split)
  qed
qed

lemma returns_waitForPixelColor:
  "steadyClock ctx \<Longrightarrow> returns (waitForPixelColor ctx x y e tmo tol)"
  unfolding returns_def waitForPixelColor_def
  using ex_poll_bound waitForPixelColor_loop_returns by blast

lemma returns_waitForCondition: "steadyClock ctx \<Longrightarrow> returns (waitForCondition ctx cond)"
  unfolding returns_def waitForCondition_def
  using ex_poll_bound waitForCondition_loop_returns by blast

lemma returns_executeAction: "steadyClock ctx \<Longrightarrow> returns (executeAction ctx act p)"
  unfolding executeAction_def
  by (simp add: returns_bindE returns_waitForPixelColor split: option.split prod.split)

lemma returns_stepBody: "steadyClock ctx \<Longrightarrow> returns (stepBody ctx step)"
  unfolding stepBody_def
  by (simp add: returns_bindE returns_executeAction returns_waitForCondition split: option.split)

lemma keeps_stepBody:
  "keeps (set (writeKeys (action step) (params step))) (stepBody ctx step)"
  unfolding stepBody_def
  by (simp add: keeps_bindE keeps_executeAction split: option.split)

subsection \<open>One step\<close>

lemma started_emit_stepStart [simp]:
  "started (emit ctx (EvStepStart a p) s) = started s @ [(a, p)]"
  by (simp add: started_def emit_def resume_def)

lemma stepResults_emit [simp]: "stepResults (emit ctx ev s) = stepResults s"
  by (simp add: emit_def resume_def)

lemma variables_emit [simp]: "variables (emit ctx ev s) = variables s"
  by (simp add: emit_def resume_def)

lemma started_recordStep [simp]: "started (recordStep ctx sr s) = started s"
  by (simp add: recordStep_def started_def emit_def resume_def)

lemma stepResults_recordStep [simp]:
  "stepResults (recordStep ctx sr s) = stepResults s @ [sr]"
  by (simp add: recordStep_def)

lemma variables_recordStep [simp]: "variables (recordStep ctx sr s) = variables s"
  by (simp add: recordStep_def)

text \<open>What \<open>executeStep\<close> returns, in terms of what the body of its \<^verbatim>\<open>try\<close> block returns.\<close>

lemma executeStep_unfold:
  "executeStep ctx step s =
     (case stepBody ctx step (emit ctx (EvStepStart (action step) (params step)) s) of
        None \<Rightarrow> None
      | Some (Inl e, s2) \<Rightarrow>
          Some (Inl e, recordStep ctx
            \<lparr>saction = action step, success = False,
             sduration = now ctx (world s2) - now ctx (world s), serror = Some e\<rparr> s2)
      | Some (Inr u, s2) \<Rightarrow>
          Some (Inr \<lparr>saction = action step, success = True,
                     sduration = now ctx (world s2) - now ctx (world s), serror = None\<rparr>,
                recordStep ctx
                  \<lparr>saction = action step, success = True,
                   sduration = now ctx (world s2) - now ctx (world s), serror = None\<rparr> s2))"
  by (simp add: executeStep_def tryCatch_def bindE_def throw_def Let_def
      split: option.split sum.split prod.split)

lemma executeStep_returns:
  assumes "steadyClock ctx"
  shows "\<exists>res s'. executeStep ctx step s = Some (res, s')"
proof -
  from returns_stepBody [OF assms, of step] obtain res s2 where
    "stepBody ctx step (emit ctx (EvStepStart (action step) (params step)) s) = Some (res, s2)"
    unfolding returns_def by blast
  then show ?thesis
    by (cases res) (simp_all add: executeStep_unfold)
qed

text \<open>
  A call of \<open>executeStep\<close> that returns has started the step, recorded exactly one result
  for it, and written no variable the step's action does not name.
\<close>

lemma executeStep_effect:
  assumes run: "executeStep ctx step s = Some (res, s')"
  shows "started s' = started s @ [stepKey step] \<and>
         (\<exists>sr. stepResults s' = stepResults s @ [sr] \<and> saction sr = action step \<and>
               (case res of
                  Inl e \<Rightarrow> \<not> success sr \<and> serror sr = Some e
                | Inr v \<Rightarrow> v = sr \<and> success sr \<and> serror sr = None)) \<and>
         (\<forall>k. k \<notin> set (writeKeys (action step) (params step)) \<longrightarrow>
               variables s' k = variables s k)"
proof -
  let ?s1 = "emit ctx (EvStepStart (action step) (params step)) s"
  let ?K = "set (writeKeys (action step) (params step))"
  from run obtain r2 s2 where body: "stepBody ctx step ?s1 = Some (r2, s2)"
    unfolding executeStep_unfold by (auto split: option.splits)
  from keeps_stepBody [of step ctx] body have fr: "frame ?K ?s1 s2"
    unfolding keeps_def by blast
  show ?thesis
  proof (cases r2)
    case (Inl e)
    with run body fr show ?thesis
      unfolding executeStep_unfold by (auto simp: frame_def stepKey_def)
  next
    case (Inr u)
    with run body fr show ?thesis
      unfolding executeStep_unfold by (auto simp: frame_def stepKey_def)
  qed
qed

subsection \<open>The phases\<close>

lemma runTeardown_Cons:
  "runTeardown ctx (step # rest) s =
     (case executeStep ctx step s of
        None \<Rightarrow> None
      | Some (res, s') \<Rightarrow> runTeardown ctx rest s')"
  by (simp add: tryCatch_def bindE_def ok_def split: option.split sum.split prod.split)

lemma runTeardown_effect:
  assumes steady: "steadyClock ctx"
  shows "\<exists>s' rs. runTeardown ctx list s = Some (Inr (), s') \<and>
                started s' = started s @ map stepKey list \<and>
                stepResults s' = stepResults s @ rs \<and>
                map saction rs = map action list \<and>
                (\<forall>k. k \<notin> (\<Union>step \<in> set list. set (writeKeys (action step) (params step))) \<longrightarrow>
                      variables s' k = variables s k)"
proof (induction list arbitrary: s)
  case Nil
  show ?case by simp
next
  case (Cons step rest)
  from executeStep_returns [OF steady, of step s] obtain res s1 where
    one: "executeStep ctx step s = Some (res, s1)" by blast
  from executeStep_effect [OF one] obtain sr where
    e1: "started s1 = started s @ [stepKey step]"
    and e2: "stepResults s1 = stepResults s @ [sr]" "saction sr = action step"
    and e3: "\<forall>k. k \<notin> set (writeKeys (action step) (params step)) \<longrightarrow>
                  variables s1 k = variables s k"
    by blast
  from Cons.IH [of s1] obtain s' rs where
    r0: "runTeardown ctx rest s1 = Some (Inr (), s')"
    and r1: "started s' = started s1 @ map stepKey rest"
    and r2: "stepResults s' = stepResults s1 @ rs" "map saction rs = map action rest"
    and r3: "\<forall>k. k \<notin> (\<Union>step \<in> set rest. set (writeKeys (action step) (params step))) \<longrightarrow>
                  variables s' k = variables s1 k"
    by blast
  have "runTeardown ctx (step # rest) s = Some (Inr (), s')"
    using one r0 by (simp add: runTeardown_Cons del: runTeardown.simps)
  moreover have "started s' = started s @ map stepKey (step # rest)"
    using e1 r1 by simp
  moreover have "stepResults s' = stepResults s @ (sr # rs)"
    using e2 r2 by simp
  moreover have "map saction (sr # rs) = map action (step # rest)"
    using e2 r2 by simp
  moreover have "\<forall>k. k \<notin> (\<Union>st \<in> set (step # rest). set (writeKeys (action st) (params st))) \<longrightarrow>
                   variables s' k = variables s k"
    using e3 r3 by simp
  ultimately show ?case by blast
qed

text \<open>
  The loop of the setup and main phases: it starts the first \<open>n\<close> entries, records one
  result for each, and stops either at the end of the list, or at an entry that threw, or
  because the run was aborted.
\<close>

lemma runPhase_effect:
  assumes steady: "steadyClock ctx"
  shows "\<exists>res s' n rs. runPhase ctx list s = Some (res, s') \<and> n \<le> length list \<and>
           started s' = started s @ map stepKey (take n list) \<and>
           stepResults s' = stepResults s @ rs \<and>
           map saction rs = map action (take n list) \<and>
           (case res of
              Inl e \<Rightarrow> rs \<noteq> [] \<and> list_all success (butlast rs) \<and> \<not> success (last rs) \<and>
                       serror (last rs) = Some e
            | Inr u \<Rightarrow> list_all success rs \<and> (n < length list \<longrightarrow> aborted s')) \<and>
           (aborted s \<longrightarrow> s' = s \<and> n = 0 \<and> res = Inr ()) \<and>
           (\<forall>k. k \<notin> (\<Union>step \<in> set list. set (writeKeys (action step) (params step))) \<longrightarrow>
                 variables s' k = variables s k)"
proof (induction list arbitrary: s)
  case Nil
  show ?case by simp
next
  case (Cons step rest)
  show ?case
  proof (cases "aborted s")
    case True
    have "runPhase ctx (step # rest) s = Some (Inr (), s)" using True by simp
    moreover have "started s = started s @ map stepKey (take 0 (step # rest))" by simp
    moreover have "stepResults s = stepResults s @ []" by simp
    ultimately show ?thesis
      using True by (intro exI [of _ "Inr ()"] exI [of _ s] exI [of _ 0] exI [of _ "[]"]) simp
  next
    case False
    from executeStep_returns [OF steady, of step s] obtain res s1 where
      one: "executeStep ctx step s = Some (res, s1)" by blast
    from executeStep_effect [OF one] obtain sr where
      e1: "started s1 = started s @ [stepKey step]"
      and e2: "stepResults s1 = stepResults s @ [sr]" "saction sr = action step"
      and e4: "case res of Inl e \<Rightarrow> \<not> success sr \<and> serror sr = Some e
               | Inr v \<Rightarrow> v = sr \<and> success sr \<and> serror sr = None"
      and e3: "\<forall>k. k \<notin> set (writeKeys (action step) (params step)) \<longrightarrow>
                    variables s1 k = variables s k"
      by blast
    show ?thesis
    proof (cases res)
      case (Inl e)
      have "runPhase ctx (step # rest) s = Some (Inl e, s1)"
        using False one Inl by simp
      moreover have "started s1 = started s @ map stepKey (take 1 (step # rest))"
        using e1 by simp
      moreover have "map saction [sr] = map action (take 1 (step # rest))"
        using e2 by simp
      moreover have "\<forall>k. k \<notin> (\<Union>st \<in> set (step # rest). set (writeKeys (action st) (params st)))
                       \<longrightarrow> variables s1 k = variables s k"
        using e3 by simp
      ultimately show ?thesis
        using e2 e4 Inl False
        by (intro exI [of _ "Inl e"] exI [of _ s1] exI [of _ 1] exI [of _ "[sr]"]) simp
    next
      case (Inr v)
      from Cons.IH [of s1] obtain res' s' n rs where
        r0: "runPhase ctx rest s1 = Some (res', s')" and rn: "n \<le> length rest"
        and r1: "started s' = started s1 @ map stepKey (take n rest)"
        and r2: "stepResults s' = stepResults s1 @ rs" "map saction rs = map action (take n rest)"
        and r4: "case res' of
                   Inl e \<Rightarrow> rs \<noteq> [] \<and> list_all success (butlast rs) \<and> \<not> success (last rs) \<and>
                            serror (last rs) = Some e
                 | Inr u \<Rightarrow> list_all success rs \<and> (n < length rest \<longrightarrow> aborted s')"
        and r3: "\<forall>k. k \<notin> (\<Union>step \<in> set rest. set (writeKeys (action step) (params step))) \<longrightarrow>
                      variables s' k = variables s1 k"
        by blast
      have "runPhase ctx (step # rest) s = Some (res', s')"
        using False one Inr r0 by simp
      moreover have "Suc n \<le> length (step # rest)" using rn by simp
      moreover have "started s' = started s @ map stepKey (take (Suc n) (step # rest))"
        using e1 r1 by simp
      moreover have "stepResults s' = stepResults s @ (sr # rs)"
        using e2 r2 by simp
      moreover have "map saction (sr # rs) = map action (take (Suc n) (step # rest))"
        using e2 r2 by simp
      moreover have "case res' of
                   Inl e \<Rightarrow> sr # rs \<noteq> [] \<and> list_all success (butlast (sr # rs)) \<and>
                            \<not> success (last (sr # rs)) \<and> serror (last (sr # rs)) = Some e
                 | Inr u \<Rightarrow> list_all success (sr # rs) \<and>
                            (Suc n < length (step # rest) \<longrightarrow> aborted s')"
        using r4 e4 Inr by (cases res') auto
      moreover have "\<forall>k. k \<notin> (\<Union>st \<in> set (step # rest). set (writeKeys (action st) (params st)))
                       \<longrightarrow> variables s' k = variables s k"
        using e3 r3 by simp
      ultimately show ?thesis
        using False
        by (intro exI [of _ res'] exI [of _ s'] exI [of _ "Suc n"] exI [of _ "sr # rs"]) simp
    qed
  qed
qed

lemma started_emit_phase [simp]: "started (emit ctx (EvPhase ph) s) = started s"
  by (simp add: started_def emit_def resume_def)

lemma setupPhase_eq:
  "setupPhase ctx script s =
     (if setupList script = [] then Some (Inr (), s)
      else runPhase ctx (setupList script) (emit ctx (EvPhase ''setup'') s))"
  by (simp add: setupPhase_def setupList_def ok_def split: option.split)

lemma teardownPhase_eq:
  "teardownPhase ctx script s =
     (if teardownList script = [] then Some (Inr (), s)
      else runTeardown ctx (teardownList script) (emit ctx (EvPhase ''teardown'') s))"
  by (simp add: teardownPhase_def teardownList_def ok_def split: option.split)

text \<open>
  The \<^verbatim>\<open>try\<close> block: it starts the first \<open>n\<close> entries of the setup list followed by the
  main list, and throws exactly when the last entry it started threw.
\<close>

lemma tryBlock_effect:
  assumes steady: "steadyClock ctx"
  shows "\<exists>res s' n rs. tryBlock ctx script s = Some (res, s') \<and>
           n \<le> length (setupList script @ steps script) \<and>
           started s' = started s @ map stepKey (take n (setupList script @ steps script)) \<and>
           stepResults s' = stepResults s @ rs \<and>
           map saction rs = map action (take n (setupList script @ steps script)) \<and>
           (case res of
              Inl e \<Rightarrow> rs \<noteq> [] \<and> list_all success (butlast rs) \<and> \<not> success (last rs) \<and>
                       serror (last rs) = Some e
            | Inr u \<Rightarrow> list_all success rs) \<and>
           (\<forall>k. k \<notin> (\<Union>step \<in> set (setupList script @ steps script).
                         set (writeKeys (action step) (params step))) \<longrightarrow>
                 variables s' k = variables s k)"
proof -
  let ?su = "setupList script" and ?st = "steps script"
  let ?W = "\<lambda>list. (\<Union>step \<in> set list. set (writeKeys (action step) (params step)))"
  let ?s0 = "if ?su = [] then s else emit ctx (EvPhase ''setup'') s"
  have base: "started ?s0 = started s" "stepResults ?s0 = stepResults s"
    "variables ?s0 = variables s" by simp_all
  from runPhase_effect [OF steady, of ?su ?s0] obtain res1 s1 n1 rs1 where
    p0: "runPhase ctx ?su ?s0 = Some (res1, s1)" and pn: "n1 \<le> length ?su"
    and p1: "started s1 = started ?s0 @ map stepKey (take n1 ?su)"
    and p2: "stepResults s1 = stepResults ?s0 @ rs1" "map saction rs1 = map action (take n1 ?su)"
    and p4: "case res1 of
               Inl e \<Rightarrow> rs1 \<noteq> [] \<and> list_all success (butlast rs1) \<and> \<not> success (last rs1) \<and>
                        serror (last rs1) = Some e
             | Inr u \<Rightarrow> list_all success rs1 \<and> (n1 < length ?su \<longrightarrow> aborted s1)"
    and p3: "\<forall>k. k \<notin> ?W ?su \<longrightarrow> variables s1 k = variables ?s0 k"
    by blast
  have su: "setupPhase ctx script s = Some (res1, s1)"
    using p0 by (auto simp: setupPhase_eq)
  have W: "?W (?su @ ?st) = ?W ?su \<union> ?W ?st" by auto
  show ?thesis
  proof (cases res1)
    case (Inl e)
    have "tryBlock ctx script s = Some (Inl e, s1)"
      using su Inl by (simp add: tryBlock_def bindE_def)
    moreover have "n1 \<le> length (?su @ ?st)" using pn by simp
    moreover have "take n1 (?su @ ?st) = take n1 ?su" using pn by simp
    moreover have "\<forall>k. k \<notin> ?W (?su @ ?st) \<longrightarrow> variables s1 k = variables s k"
      using p3 base unfolding W by simp
    ultimately show ?thesis
      using p1 p2 p4 Inl base
      by (intro exI [of _ "Inl e"] exI [of _ s1] exI [of _ n1] exI [of _ rs1]) simp
  next
    case (Inr u)
    show ?thesis
    proof (cases "aborted s1")
      case True
      have "tryBlock ctx script s = Some (Inr (), s1)"
        using su Inr True by (simp add: tryBlock_def bindE_def mainPhase_def ok_def)
      moreover have "n1 \<le> length (?su @ ?st)" using pn by simp
      moreover have "take n1 (?su @ ?st) = take n1 ?su" using pn by simp
      moreover have "\<forall>k. k \<notin> ?W (?su @ ?st) \<longrightarrow> variables s1 k = variables s k"
        using p3 base unfolding W by simp
      ultimately show ?thesis
        using p1 p2 p4 Inr base
        by (intro exI [of _ "Inr ()"] exI [of _ s1] exI [of _ n1] exI [of _ rs1]) simp
    next
      case False
      with p4 Inr pn have full: "n1 = length ?su" by auto
      let ?s2 = "emit ctx (EvPhase ''main'') s1"
      from runPhase_effect [OF steady, of ?st ?s2] obtain res2 s' n2 rs2 where
        q0: "runPhase ctx ?st ?s2 = Some (res2, s')" and qn: "n2 \<le> length ?st"
        and q1: "started s' = started ?s2 @ map stepKey (take n2 ?st)"
        and q2: "stepResults s' = stepResults ?s2 @ rs2"
                "map saction rs2 = map action (take n2 ?st)"
        and q4: "case res2 of
                   Inl e \<Rightarrow> rs2 \<noteq> [] \<and> list_all success (butlast rs2) \<and>
                            \<not> success (last rs2) \<and> serror (last rs2) = Some e
                 | Inr u \<Rightarrow> list_all success rs2 \<and> (n2 < length ?st \<longrightarrow> aborted s')"
        and q3: "\<forall>k. k \<notin> ?W ?st \<longrightarrow> variables s' k = variables ?s2 k"
        by blast
      have ok1: "list_all success rs1" using p4 Inr by simp
      have "tryBlock ctx script s = Some (res2, s')"
        using su Inr False q0 by (simp add: tryBlock_def bindE_def mainPhase_def)
      moreover have "n1 + n2 \<le> length (?su @ ?st)" using pn qn by simp
      moreover have tk: "take (n1 + n2) (?su @ ?st) = ?su @ take n2 ?st" using full by simp
      moreover have "started s' = started s @ map stepKey (?su @ take n2 ?st)"
        using p1 q1 base full by simp
      moreover have "stepResults s' = stepResults s @ (rs1 @ rs2)"
        using p2 q2 base by simp
      moreover have "map saction (rs1 @ rs2) = map action (?su @ take n2 ?st)"
        using p2 q2 full by simp
      moreover have "case res2 of
                   Inl e \<Rightarrow> rs1 @ rs2 \<noteq> [] \<and> list_all success (butlast (rs1 @ rs2)) \<and>
                            \<not> success (last (rs1 @ rs2)) \<and> serror (last (rs1 @ rs2)) = Some e
                 | Inr u \<Rightarrow> list_all success (rs1 @ rs2)"
        using q4 ok1 by (cases res2) (auto simp: butlast_append)
      moreover have "\<forall>k. k \<notin> ?W (?su @ ?st) \<longrightarrow> variables s' k = variables s k"
        using p3 q3 base unfolding W by simp
      ultimately show ?thesis
        by (intro exI [of _ res2] exI [of _ s'] exI [of _ "n1 + n2"] exI [of _ "rs1 @ rs2"])
           simp
    qed
  qed
qed

subsection \<open>The whole run\<close>

lemma scriptStart_simps [simp]:
  "started (scriptStart ctx script s) = started s"
  "stepResults (scriptStart ctx script s) = []"
  "variables (scriptStart ctx script s) = variables s"
  by (simp_all add: scriptStart_def started_def emit_def resume_def)

lemma scriptWrites_split:
  "scriptWrites script =
     (\<Union>step \<in> set (setupList script @ steps script). set (writeKeys (action step) (params step)))
     \<union> (\<Union>step \<in> set (teardownList script). set (writeKeys (action step) (params step)))"
  by (auto simp: scriptWrites_def)

lemma runScript_effect:
  assumes steady: "steadyClock ctx"
  shows "\<exists>r1 s1 n rs s2 rt res.
     tryBlock ctx script (scriptStart ctx script s) = Some (r1, s1) \<and>
     n \<le> length (setupList script @ steps script) \<and>
     started s1 = started s @ map stepKey (take n (setupList script @ steps script)) \<and>
     stepResults s1 = rs \<and>
     map saction rs = map action (take n (setupList script @ steps script)) \<and>
     (case r1 of
        Inl e \<Rightarrow> rs \<noteq> [] \<and> list_all success (butlast rs) \<and> \<not> success (last rs) \<and>
                 serror (last rs) = Some e
      | Inr u \<Rightarrow> list_all success rs) \<and>
     started s2 = started s1 @ map stepKey (teardownList script) \<and>
     stepResults s2 = rs @ (case r1 of Inl e \<Rightarrow> [errorRecord e] | Inr u \<Rightarrow> []) @ rt \<and>
     map saction rt = map action (teardownList script) \<and>
     (\<forall>k. k \<notin> scriptWrites script \<longrightarrow> variables s2 k = variables s k) \<and>
     res = \<lparr>tname = name script, passed = list_all success (stepResults s2),
            tduration = now ctx (world s2) - now ctx (world s), tsteps = stepResults s2\<rparr> \<and>
     runScript ctx script s =
       Some (Inr res, emit ctx (EvScriptComplete res) (s2\<lparr>running := False\<rparr>))"
proof -
  let ?all = "setupList script @ steps script" and ?td = "teardownList script"
  let ?s0 = "scriptStart ctx script s"
  let ?W = "\<lambda>list. (\<Union>step \<in> set list. set (writeKeys (action step) (params step)))"
  from tryBlock_effect [OF steady, of script ?s0] obtain r1 s1 n rs where
    t0: "tryBlock ctx script ?s0 = Some (r1, s1)" and tn: "n \<le> length ?all"
    and t1: "started s1 = started s @ map stepKey (take n ?all)"
    and t2: "stepResults s1 = rs" "map saction rs = map action (take n ?all)"
    and t4: "case r1 of
               Inl e \<Rightarrow> rs \<noteq> [] \<and> list_all success (butlast rs) \<and> \<not> success (last rs) \<and>
                        serror (last rs) = Some e
             | Inr u \<Rightarrow> list_all success rs"
    and t3: "\<forall>k. k \<notin> ?W ?all \<longrightarrow> variables s1 k = variables s k"
    by auto
  let ?extra = "case r1 of Inl e \<Rightarrow> [errorRecord e] | Inr u \<Rightarrow> []"
  let ?s1c = "s1\<lparr>stepResults := rs @ ?extra\<rparr>"
  have caught: "tryCatch (tryBlock ctx script) recordError ?s0 = Some (Inr (), ?s1c)"
    using t0 t2 by (cases r1) (simp_all add: tryCatch_def recordError_def)
  let ?s1t = "if ?td = [] then ?s1c else emit ctx (EvPhase ''teardown'') ?s1c"
  have base: "started ?s1t = started s1" "stepResults ?s1t = rs @ ?extra"
    "variables ?s1t = variables s1"
    by (simp_all add: started_def emit_def resume_def)
  from runTeardown_effect [OF steady, of ?td ?s1t] obtain s2 rt where
    d0: "runTeardown ctx ?td ?s1t = Some (Inr (), s2)"
    and d1: "started s2 = started ?s1t @ map stepKey ?td"
    and d2: "stepResults s2 = stepResults ?s1t @ rt" "map saction rt = map action ?td"
    and d3: "\<forall>k. k \<notin> ?W ?td \<longrightarrow> variables s2 k = variables ?s1t k"
    by blast
  have td: "teardownPhase ctx script ?s1c = Some (Inr (), s2)"
    using d0 by (auto simp: teardownPhase_eq)
  let ?res = "\<lparr>tname = name script, passed = list_all success (stepResults s2),
               tduration = now ctx (world s2) - now ctx (world s), tsteps = stepResults s2\<rparr>"
  have run: "runScript ctx script s =
               Some (Inr ?res, emit ctx (EvScriptComplete ?res) (s2\<lparr>running := False\<rparr>))"
    using caught td by (simp add: runScript_def tryFinally_def bindE_def Let_def)
  have vars: "\<forall>k. k \<notin> scriptWrites script \<longrightarrow> variables s2 k = variables s k"
    using t3 d3 base unfolding scriptWrites_split by simp
  have "started s2 = started s1 @ map stepKey ?td" using d1 base by simp
  moreover have "stepResults s2 = rs @ ?extra @ rt" using d2 base by simp
  ultimately show ?thesis
    using t0 tn t1 t2 t4 d2(2) vars run by blast
qed

lemmas run_defs = tryBlock_def setupPhase_def mainPhase_def plainStep_def
  executeStep_unfold stepBody_def executeAction_def perform_def bindE_def lift_def ok_def
  throw_def await_def emit_def resume_def recordStep_def scriptStart_def fakeStart_def
  newEngine_def fake_def answerAll_def never_def started_def getProp_def

lemma stepResults_emit_running [simp]:
  "stepResults (emit ctx ev (s\<lparr>running := False\<rparr>)) = stepResults s"
  "started (emit ctx (EvScriptComplete res) (s\<lparr>running := False\<rparr>)) = started s"
  "running (emit ctx ev (s\<lparr>running := False\<rparr>)) = False"
  "variables (emit ctx ev (s\<lparr>running := False\<rparr>)) = variables s"
  by (simp_all add: emit_def resume_def started_def)

subsection \<open>Runs on the fake runtime\<close>

lemma quietFake_steady: "steadyClock quietFake"
  by (simp add: quietFake_def fake_steady)

lemma quit_now_throws:
  "map_option fst (executeStep quietFake (plainStep ''quit_now'' []) fakeStart) =
     Some (Inl (UnknownAction ''quit_now''))"
  by (simp add: run_defs quietFake_def)

text \<open>The run of \<open>failingScript\<close> on the fake runtime, evaluated.\<close>

lemma failingScript_run:
  "map_option (\<lambda>x. (map_sum id (\<lambda>res. (passed res, map saction (tsteps res), map success (tsteps res))) (fst x),
                    map fst (started (snd x)), callLog (world (snd x))))
     (runScript quietFake failingScript fakeStart) =
   Some (Inr (False,
              [''launch'', ''toggle_console'', ''frobnicate'', ''error'', ''quit_now'', ''command''],
              [True, True, False, False, False, True]),
         [''launch'', ''toggle_console'', ''frobnicate'', ''quit_now'', ''command''],
         [Launch (JObj [(''executablePath'', JStr ''/bin/x''), (''workingDirectory'', JUndefined),
                        (''arguments'', JUndefined), (''windowedMode'', JUndefined),
                        (''resolution'', JUndefined)]),
          ToggleConsole, SendCommand (JStr ''quit'')])"
  by (simp add: run_defs quietFake_def failingScript_def runScript_def tryFinally_def
      tryCatch_def recordError_def errorRecord_def teardownPhase_def Let_def)

lemma failingScript_results:
  "map_option (\<lambda>x. map_sum id tsteps (fst x)) (runScript quietFake failingScript fakeStart) =
   Some (Inr [\<lparr>saction = ''launch'', success = True, sduration = 0, serror = None\<rparr>,
              \<lparr>saction = ''toggle_console'', success = True, sduration = 0, serror = None\<rparr>,
              \<lparr>saction = ''frobnicate'', success = False, sduration = 0,
                 serror = Some (UnknownAction ''frobnicate'')\<rparr>,
              \<lparr>saction = ''error'', success = False, sduration = 0,
                 serror = Some (UnknownAction ''frobnicate'')\<rparr>,
              \<lparr>saction = ''quit_now'', success = False, sduration = 0,
                 serror = Some (UnknownAction ''quit_now'')\<rparr>,
              \<lparr>saction = ''command'', success = True, sduration = 0, serror = None\<rparr>])"
  by (simp add: run_defs quietFake_def failingScript_def runScript_def tryFinally_def
      tryCatch_def recordError_def errorRecord_def teardownPhase_def Let_def)

lemma last_map_take: "m < length xs \<Longrightarrow> last (map f (take (Suc m) xs)) = f (xs ! m)"
  by (simp add: take_Suc_conv_app_nth)

lemma failingScript_throws:
  "map_option fst (tryBlock quietFake failingScript (scriptStart quietFake failingScript fakeStart))
     = Some (Inl (UnknownAction ''frobnicate''))"
  by (simp add: run_defs quietFake_def failingScript_def)

subsection \<open>The decision tree of a step\<close>

lemma executeStep_by_cases:
  "executeStep ctx step s =
     (case executeAction ctx (action step) (params step)
             (emit ctx (EvStepStart (action step) (params step)) s) of
        None \<Rightarrow> None
      | Some (Inl e, s2) \<Rightarrow> stepFails ctx step e s s2
      | Some (Inr u, s2) \<Rightarrow>
          (case condition step of
             None \<Rightarrow> stepSucceeds ctx step s (afterDelay ctx step s2)
           | Some cond \<Rightarrow>
               (case waitForCondition ctx cond (afterDelay ctx step s2) of
                  None \<Rightarrow> None
                | Some (Inl e, s4) \<Rightarrow> stepFails ctx step e s s4
                | Some (Inr met, s4) \<Rightarrow>
                    if met then stepSucceeds ctx step s s4
                    else stepFails ctx step (ConditionNotMet cond) s s4)))"
  unfolding executeStep_unfold stepBody_def stepFails_def stepSucceeds_def afterDelay_def
  by (simp add: bindE_def ok_def throw_def split: option.split sum.split prod.split)

subsection \<open>Conditions that are never met\<close>

lemma waitForCondition_never:
  assumes steady: "steadyClock ctx"
    and never: "\<And>s1. fst (checkCondition ctx cond s1) = Inr False"
  shows "\<exists>s'. waitForCondition ctx cond s = Some (Inr False, s') \<and>
              effectiveTimeout cond \<le> now ctx (world s') - now ctx (world s) \<and>
              (effectiveTimeout cond \<le> 0 \<longrightarrow> s' = s) \<and>
              (\<forall>d j. boundedLatency ctx d j \<longrightarrow>
                     now ctx (world s') - now ctx (world s)
                       < max (effectiveTimeout cond) 0 + 200 + j + d)"
proof -
  let ?T = "effectiveTimeout cond" and ?st = "now ctx (world s)"
  obtain k :: nat where "?st + ?T - now ctx (world s) \<le> 200 * of_nat k"
    using ex_poll_bound by blast
  from waitForCondition_loop_never [OF steady never this] obtain s' where
    run: "waitForCondition_loop ctx cond ?st ?T s = Some (Inr False, s')"
    and low: "?T \<le> now ctx (world s') - ?st"
    and stay: "\<not> now ctx (world s) - ?st < ?T \<longrightarrow> s' = s"
    and up: "\<forall>d j. boundedLatency ctx d j \<longrightarrow> now ctx (world s) - ?st < ?T \<longrightarrow>
               now ctx (world s') - ?st < ?T + 200 + j + d"
    by blast
  have "now ctx (world s') - ?st < max ?T 0 + 200 + j + d" if lat: "boundedLatency ctx d j" for d j
  proof (cases "0 < ?T")
    case True
    with up lat show ?thesis by (simp add: max_def)
  next
    case False
    with stay have "s' = s" by simp
    moreover have "0 \<le> d" "0 \<le> j" using latency_nonneg [OF steady lat] by simp_all
    ultimately show ?thesis by (simp add: max_def)
  qed
  with run low stay show ?thesis
    unfolding waitForCondition_def by auto
qed

lemma noWindow_never: "fst (checkCondition quietFake (noWindow t) s1) = Inr False"
  by (simp add: checkCondition_def noWindow_def await_def quietFake_def fake_def answerAll_def)

lemma quietFake_latency: "boundedLatency quietFake 0 0"
  by (simp add: quietFake_def fake_latency)

subsection \<open>Variables across a run\<close>

lemma runScript_variables:
  assumes steady: "steadyClock ctx"
  shows "\<exists>res s'. runScript ctx script s = Some (Inr res, s') \<and>
           (\<forall>key. key \<notin> scriptWrites script \<longrightarrow> variables s' key = variables s key)"
proof -
  from runScript_effect [OF steady, of script s] obtain r1 s1 s2 res where
    "tryBlock ctx script (scriptStart ctx script s) = Some (r1, s1)"
    and "\<forall>k. k \<notin> scriptWrites script \<longrightarrow> variables s2 k = variables s k"
    and "runScript ctx script s =
           Some (Inr res, emit ctx (EvScriptComplete res) (s2\<lparr>running := False\<rparr>))"
    by blast
  then show ?thesis by simp
qed

lemma chainScript_writes: "scriptWrites chainScript = {JStr ''y''}"
  by (simp add: scriptWrites_def chainScript_def plainStep_def setupList_def teardownList_def
      writeKeys_def getProp_def)

text \<open>
  The run of \<open>chainScript\<close> passes on an engine where \<^verbatim>\<open>x\<close> was set to 5 before the run, and
  fails on a fresh engine.
\<close>

lemma chainScript_run:
  "map_option (\<lambda>x. (map_sum id passed (fst x), getVariable (snd x) ''x'', getVariable (snd x) ''y''))
     (runScript quietFake chainScript (setVariable ''x'' (JNum 5) fakeStart)) =
   Some (Inr True, JNum 5, JNum 7) \<and>
   map_option (\<lambda>x. (map_sum id passed (fst x), getVariable (snd x) ''x'', getVariable (snd x) ''y''))
     (runScript quietFake chainScript fakeStart) =
   Some (Inr False, JUndefined, JNum 7)"
  by (simp add: run_defs quietFake_def chainScript_def runScript_def tryFinally_def
      tryCatch_def recordError_def errorRecord_def teardownPhase_def Let_def
      setVariable_def getVariable_def variablesGet_def variablesSet_def)

subsection \<open>Pixels that never match\<close>





text \<open>The three steps on the fake runtime where nothing appears, evaluated.\<close>

lemma wait_steps_run:
  "outcomeAt (executeStep blindFake waitConsoleStep) =
     Some (Inr \<lparr>saction = ''wait_for_console'', success = True, sduration = 0, serror = None\<rparr>, 0) \<and>
   outcomeAt (executeStep blindFake waitPixelStep) =
     Some (Inr \<lparr>saction = ''wait_for_pixel'', success = True, sduration = 1000, serror = None\<rparr>,
           1000) \<and>
   outcomeAt (executeStep blindFake waitImageStep) =
     Some (Inl (ImageNotFound (JStr ''menu.png'')), 0)"
  by (simp add: outcomeAt_def run_defs blindFake_def nothingAppears_def waitConsoleStep_def
      waitPixelStep_def waitImageStep_def waitForPixelColor_def waitForPixelColor_loop.simps
      checkPixelColor_def delay_def orElse_def colorObj_def asPixelColor_def Let_def
      round_simps)

subsection \<open>Blindness to the abort flag\<close>

lemma world_flagged [simp]: "world (flagged s) = world s"
  by (simp add: flagged_def)

lemma resume_flagged [simp]: "resume ctx w (flagged s) = flagged (resume ctx w s)"
  by (simp add: resume_def flagged_def)

lemma emit_flagged [simp]: "emit ctx ev (flagged s) = flagged (emit ctx ev s)"
  by (simp add: emit_def) (simp add: flagged_def resume_def)

lemma delay_flagged [simp]: "delay ctx ms (flagged s) = flagged (delay ctx ms s)"
  by (simp add: delay_def)

lemma await_flagged [simp]: "await ctx c (flagged s) = apsnd flagged (await ctx c s)"
  by (simp add: await_def split: prod.split reply.split)

lemma checkPixelColor_flagged [simp]:
  "checkPixelColor ctx x y e t (flagged s) = apsnd flagged (checkPixelColor ctx x y e t s)"
  by (simp add: checkPixelColor_def Let_def split: prod.split sum.split option.split)

lemma checkCondition_flagged [simp]:
  "checkCondition ctx cond (flagged s) = apsnd flagged (checkCondition ctx cond s)"
  by (simp add: checkCondition_def split: prod.split sum.split option.split jsval.split)

lemma blind_ok [simp]: "blind ok"
  by (simp add: blind_def ok_def)

lemma blind_throw [simp]: "blind (throw e)"
  by (simp add: blind_def throw_def)

lemma blind_bindE: "blind m \<Longrightarrow> (\<And>v. blind (f v)) \<Longrightarrow> blind (bindE m f)"
  unfolding blind_def bindE_def
  by (auto split: option.split sum.split prod.split)

lemma blind_await [simp]: "blind (lift (await ctx c))"
  by (simp add: blind_def lift_def)

lemma blind_perform [simp]: "blind (perform ctx c)"
  by (simp add: perform_def blind_bindE)

lemma blind_variablesSet [simp]: "blind (variablesSet k v)"
  by (simp add: blind_def variablesSet_def flagged_def)

lemma blind_member [simp]: "blind (member v k)"
  by (cases v) (simp_all add: blind_def throw_def)

lemma blind_checkPixelColor [simp]: "blind (lift (checkPixelColor ctx x y e t))"
  by (simp add: blind_def lift_def)

lemma blind_delay [simp]: "blind (\<lambda>s. Some (Inr (), delay ctx ms s))"
  by (simp add: blind_def)

lemma blind_log [simp]: "blind (\<lambda>s. Some (Inr (), emit ctx ev s))"
  by (simp add: blind_def)

lemma blind_assert [simp]:
  "blind (\<lambda>s. let v = variablesGet s k in
                if \<not> strictEq v x then throw (AssertionFailed k v x) s else ok s)"
  by (simp add: blind_def Let_def throw_def ok_def variablesGet_def flagged_def)

lemma waitForCondition_loop_flagged:
  assumes steady: "steadyClock ctx"
  shows "st + T - now ctx (world s) \<le> 200 * of_nat k \<Longrightarrow>
         waitForCondition_loop ctx cond st T (flagged s) =
           map_option (apsnd flagged) (waitForCondition_loop ctx cond st T s)"
proof (induction k arbitrary: s)
  case 0
  then have "\<not> now ctx (world s) - st < T" by simp
  then show ?case
    by (subst (1 2) waitForCondition_loop.simps) simp
next
  case (Suc k)
  show ?case
  proof (cases "now ctx (world s) - st < T")
    case False
    then show ?thesis by (subst (1 2) waitForCondition_loop.simps) simp
  next
    case True
    obtain res s1 where chk: "checkCondition ctx cond s = (res, s1)"
      by (cases "checkCondition ctx cond s")
    have c1: "now ctx (world s) \<le> now ctx (world s1)"
      using checkCondition_clock [OF steady, of s cond] chk by simp
    have c2: "now ctx (world s1) + 200 \<le> now ctx (world (delay ctx (JNum 200) s1))"
      by (rule delay_clock [OF steady])
    have "st + T - now ctx (world (delay ctx (JNum 200) s1)) \<le> 200 * of_nat k"
      using Suc.prems c1 c2 by (simp add: algebra_simps)
    from Suc.IH [OF this] show ?thesis
      by (subst (1 2) waitForCondition_loop.simps) (simp add: True chk split: sum.split)
  qed
qed

lemma waitForPixelColor_loop_flagged:
  assumes steady: "steadyClock ctx"
  shows "st + T - now ctx (world s) \<le> 200 * of_nat k \<Longrightarrow>
         waitForPixelColor_loop ctx pos e T tol st (flagged s) =
           map_option (apsnd flagged) (waitForPixelColor_loop ctx pos e T tol st s)"
proof (induction k arbitrary: s)
  case 0
  then have "\<not> now ctx (world s) - st < T" by simp
  then show ?case
    by (subst (1 2) waitForPixelColor_loop.simps) simp
next
  case (Suc k)
  show ?case
  proof (cases "now ctx (world s) - st < T")
    case False
    then show ?thesis by (subst (1 2) waitForPixelColor_loop.simps) simp
  next
    case True
    obtain res s1 where chk: "checkPixelColor ctx (fst pos) (snd pos) e tol s = (res, s1)"
      by (cases "checkPixelColor ctx (fst pos) (snd pos) e tol s")
    have c1: "now ctx (world s) \<le> now ctx (world s1)"
      using checkPixelColor_clock [OF steady, of s "fst pos" "snd pos" e tol] chk by simp
    have c2: "now ctx (world s1) + 200 \<le> now ctx (world (delay ctx (JNum 200) s1))"
      by (rule delay_clock [OF steady])
    have "st + T - now ctx (world (delay ctx (JNum 200) s1)) \<le> 200 * of_nat k"
      using Suc.prems c1 c2 by (simp add: algebra_simps)
    from Suc.IH [OF this] show ?thesis
      by (subst (1 2) waitForPixelColor_loop.simps) (simp add: True chk split: sum.split)
  qed
qed

lemma blind_waitForCondition: "steadyClock ctx \<Longrightarrow> blind (waitForCondition ctx cond)"
  unfolding blind_def waitForCondition_def
  using ex_poll_bound waitForCondition_loop_flagged by (metis world_flagged)

lemma blind_waitForPixelColor:
  "steadyClock ctx \<Longrightarrow> blind (waitForPixelColor ctx x y e tmo tol)"
  unfolding blind_def waitForPixelColor_def
  using ex_poll_bound waitForPixelColor_loop_flagged by (metis world_flagged)

lemma blind_executeAction: "steadyClock ctx \<Longrightarrow> blind (executeAction ctx act p)"
  unfolding executeAction_def
  by (simp add: blind_bindE blind_waitForPixelColor split: option.split prod.split)

lemma blind_stepBody: "steadyClock ctx \<Longrightarrow> blind (stepBody ctx step)"
  unfolding stepBody_def
  by (simp add: blind_bindE blind_executeAction blind_waitForCondition split: option.split)

lemma recordStep_flagged [simp]:
  "recordStep ctx sr (flagged s) = flagged (recordStep ctx sr s)"
  by (simp add: recordStep_def) (simp add: flagged_def emit_def resume_def)

lemma blind_executeStep:
  assumes "steadyClock ctx"
  shows "blind (executeStep ctx step)"
proof -
  have "stepBody ctx step (flagged s1) = map_option (apsnd flagged) (stepBody ctx step s1)" for s1
    using blind_stepBody [OF assms, of step] unfolding blind_def by blast
  then show ?thesis
    unfolding blind_def executeStep_unfold
    by (simp split: option.split sum.split prod.split)
qed

lemma blind_runTeardown:
  assumes "steadyClock ctx"
  shows "blind (runTeardown ctx list)"
proof (induction list)
  case Nil
  show ?case by (simp add: blind_def)
next
  case (Cons step rest)
  have one: "executeStep ctx step (flagged s) = map_option (apsnd flagged) (executeStep ctx step s)"
    for s
    using blind_executeStep [OF assms, of step] unfolding blind_def by blast
  from Cons.IH have rest: "runTeardown ctx rest (flagged s) =
      map_option (apsnd flagged) (runTeardown ctx rest s)" for s
    unfolding blind_def by blast
  show ?case
    unfolding blind_def
    by (simp add: runTeardown_Cons one rest del: runTeardown.simps split: option.split prod.split)
qed

lemma blind_teardownPhase: "steadyClock ctx \<Longrightarrow> blind (teardownPhase ctx script)"
  using blind_runTeardown [of ctx "teardownList script"]
  unfolding blind_def teardownPhase_eq by simp

lemma aborted_emit: "aborted s \<Longrightarrow> aborted (emit ctx ev s)"
  by (simp add: emit_def resume_def)

lemma runPhase_aborted: "aborted s \<Longrightarrow> runPhase ctx list s = Some (Inr (), s)"
  by (cases list) simp_all

lemma setupPhase_aborted:
  assumes "aborted (emit ctx (EvPhase ''setup'') s)"
  shows "\<exists>s'. setupPhase ctx script s = Some (Inr (), s') \<and> started s' = started s \<and>
              stepResults s' = stepResults s \<and> (aborted s \<longrightarrow> aborted s')"
  using assms by (simp add: setupPhase_eq runPhase_aborted)

lemma mainPhase_aborted:
  assumes "aborted s \<or> aborted (emit ctx (EvPhase ''main'') s)"
  shows "\<exists>s'. mainPhase ctx script s = Some (Inr (), s') \<and> started s' = started s \<and>
              stepResults s' = stepResults s"
  using assms by (auto simp: mainPhase_def ok_def runPhase_aborted)

lemma abortingFake_steady: "steadyClock abortingFake"
  by (simp add: abortingFake_def fake_steady)

lemma abortingFake_start: "aborted (scriptStart abortingFake failingScript fakeStart)"
  by (simp add: scriptStart_def emit_def resume_def abortingFake_def fake_def onScriptStart_def
      fakeStart_def newEngine_def)

text \<open>The run of \<open>failingScript\<close> on the runtime that aborts it at its start, evaluated.\<close>

lemma aborted_run:
  "map_option (\<lambda>x. (map_sum id (\<lambda>res. (passed res, map saction (tsteps res), map success (tsteps res))) (fst x),
                    map fst (started (snd x)), callLog (world (snd x)), aborted (snd x)))
     (runScript abortingFake failingScript fakeStart) =
   Some (Inr (False, [''quit_now'', ''command''], [False, True]),
         [''quit_now'', ''command''], [SendCommand (JStr ''quit'')], True)"
  by (simp add: run_defs abortingFake_def onScriptStart_def failingScript_def runScript_def
      tryFinally_def tryCatch_def recordError_def errorRecord_def teardownPhase_def Let_def)

subsection \<open>Actions of the vocabulary are known\<close>

lemma knownOnly_ok [simp]: "knownOnly ok"
  by (simp add: knownOnly_def ok_def)

lemma knownOnly_throw: "(\<And>a. e \<noteq> UnknownAction a) \<Longrightarrow> knownOnly (throw e)"
  by (simp add: knownOnly_def throw_def)

lemma knownOnly_bindE:
  "knownOnly m \<Longrightarrow> (\<And>v. knownOnly (f v)) \<Longrightarrow> knownOnly (bindE m f)"
  unfolding knownOnly_def bindE_def
  by (fastforce split: option.splits sum.splits prod.splits)

lemma await_error: "fst (await ctx c s) = Inl e \<Longrightarrow> \<exists>m. e = Rejected m"
  by (auto simp: await_def split: prod.splits reply.splits)

lemma knownOnly_await [simp]: "knownOnly (lift (await ctx c))"
  unfolding knownOnly_def lift_def using await_error by (metis error.distinct(15) fst_conv option.inject)

lemma knownOnly_perform [simp]: "knownOnly (perform ctx c)"
  by (simp add: perform_def knownOnly_bindE)

lemma knownOnly_variablesSet [simp]: "knownOnly (variablesSet k v)"
  by (simp add: knownOnly_def variablesSet_def)

lemma knownOnly_member [simp]: "knownOnly (member v k)"
  by (cases v) (simp_all add: knownOnly_def throw_def)

lemma knownOnly_Some [simp]: "knownOnly (\<lambda>s. Some (Inr v, f s))"
  by (simp add: knownOnly_def)

lemma knownOnly_assert [simp]:
  "knownOnly (\<lambda>s. let v = variablesGet s k in
                if \<not> strictEq v x then throw (AssertionFailed k v x) s else ok s)"
  by (simp add: knownOnly_def Let_def throw_def ok_def)

lemma checkPixelColor_error:
  "fst (checkPixelColor ctx x y e t s) = Inl err \<Longrightarrow> err \<noteq> UnknownAction a"
  using await_error [of ctx "GetPixelColor x y" s]
  by (auto simp: checkPixelColor_def Let_def split: prod.splits sum.splits option.splits if_splits)

lemma knownOnly_checkPixelColor [simp]: "knownOnly (lift (checkPixelColor ctx x y e t))"
  unfolding knownOnly_def lift_def using checkPixelColor_error by (metis fst_conv option.inject)

lemma waitForPixelColor_loop_error:
  assumes run: "waitForPixelColor_loop ctx0 pos0 e0 tmo0 tol0 st0 s0 = Some y0"
  shows "fst y0 \<noteq> Inl (UnknownAction a)"
proof (rule waitForPixelColor_loop.raw_induct
    [where P = "\<lambda>ctx pos e tmo tol st s y. fst y \<noteq> Inl (UnknownAction a)", OF _ run])
  fix loop and ctx :: "'a AutomationContext" and pos e tmo tol st s y
  assume IH: "\<And>ctx pos e tmo tol st s y.
                 loop ctx pos e tmo tol st s = Some y \<Longrightarrow> fst y \<noteq> Inl (UnknownAction a)"
    and eq: "(if now ctx (world s) - st < tmo then
               (case checkPixelColor ctx (fst pos) (snd pos) e tol s of
                  (Inl err, s') \<Rightarrow> Some (Inl err, s')
                | (Inr matches, s') \<Rightarrow>
                    if matches then Some (Inr True, s')
                    else loop ctx pos e tmo tol st (delay ctx (JNum 200) s'))
             else Some (Inr False, s)) = Some y"
  show "fst y \<noteq> Inl (UnknownAction a)"
  proof (cases "now ctx (world s) - st < tmo")
    case False
    with eq show ?thesis by auto
  next
    case True
    obtain res s1 where chk: "checkPixelColor ctx (fst pos) (snd pos) e tol s = (res, s1)"
      by (cases "checkPixelColor ctx (fst pos) (snd pos) e tol s")
    show ?thesis
    proof (cases res)
      case (Inl err)
      with chk have "err \<noteq> UnknownAction a"
        using checkPixelColor_error [of ctx "fst pos" "snd pos" e tol s err a] by simp
      with eq True chk Inl show ?thesis by auto
    next
      case (Inr matches)
      show ?thesis
      proof (cases matches)
        case True
        with eq \<open>now ctx (world s) - st < tmo\<close> chk Inr show ?thesis by auto
      next
        case False
        with eq \<open>now ctx (world s) - st < tmo\<close> chk Inr
        have "loop ctx pos e tmo tol st (delay ctx (JNum 200) s1) = Some y" by simp
        from IH [OF this] show ?thesis .
      qed
    qed
  qed
qed

lemma knownOnly_waitForPixelColor [simp]: "knownOnly (waitForPixelColor ctx x y e tmo tol)"
  unfolding knownOnly_def waitForPixelColor_def
  using waitForPixelColor_loop_error by (metis fst_conv)

lemma executeAction_known:
  "act \<in> set vocabulary \<longrightarrow> knownOnly (executeAction ctx act p)"
  unfolding executeAction_def vocabulary_def
  by (simp add: knownOnly_bindE knownOnly_throw split: option.split prod.split)

subsection \<open>The action table\<close>

lemma perform_collab:
  "perform ctx c s =
     (case collab ctx c (world s) of
        (Returned v, w') \<Rightarrow> Some (Inr (), resume ctx w' s)
      | (Threw m, w') \<Rightarrow> Some (Inl (Rejected m), resume ctx w' s))"
  by (simp add: perform_def bindE_def lift_def await_def ok_def split: prod.split reply.split)

lemma member_cases:
  "member v k s = (if v = JUndefined \<or> v = JNull then Some (Inl IllTyped, s)
                   else Some (Inr (optChain v k), s))"
  by (cases v) (simp_all add: throw_def)

lemma executeAction_table_vocabulary:
  "\<forall>act \<in> set vocabulary.
   (case actionCall act p of
     None \<Rightarrow> True
   | Some c \<Rightarrow>
       (case collab ctx c (world s) of
          (Threw m, w') \<Rightarrow> executeAction ctx act p s = Some (Inl (Rejected m), resume ctx w' s)
        | (Returned v, w') \<Rightarrow>
            map_option fst (executeAction ctx act p s) =
              Some (case replyOutcome act p v of None \<Rightarrow> Inr () | Some e \<Rightarrow> Inl e) \<and>
            map_option (\<lambda>x. (snd x)\<lparr>variables := variables s\<rparr>) (executeAction ctx act p s) =
              Some (resume ctx w' s)))"
  apply (simp only: vocabulary_def list.set ball_simps)
  apply (intro conjI)
  apply (simp_all add: actionCall_def executeAction_def replyOutcome_def perform_collab
        bindE_def lift_def await_def checkPixelColor_def ok_def throw_def variablesSet_def Let_def
        member_cases resume_def
      split: prod.split reply.split option.split)
  done

lemma actionCall_vocabulary: "act \<notin> set vocabulary \<Longrightarrow> actionCall act p = None"
  by (simp add: vocabulary_def actionCall_def)

lemma executeAction_table:
  assumes "actionCall act p = Some c"
  shows "case collab ctx c (world s) of
          (Threw m, w') \<Rightarrow> executeAction ctx act p s = Some (Inl (Rejected m), resume ctx w' s)
        | (Returned v, w') \<Rightarrow>
            map_option fst (executeAction ctx act p s) =
              Some (case replyOutcome act p v of None \<Rightarrow> Inr () | Some e \<Rightarrow> Inl e) \<and>
            map_option (\<lambda>x. (snd x)\<lparr>variables := variables s\<rparr>) (executeAction ctx act p s) =
              Some (resume ctx w' s)"
proof -
  have "act \<in> set vocabulary" using assms actionCall_vocabulary [of act p] by auto
  with executeAction_table_vocabulary [where p = p and ctx = ctx and s = s, rule_format, of act] assms
  show ?thesis by simp
qed

lemma actionCall_complete:
  "act \<in> set vocabulary \<Longrightarrow> actionCall act p = None \<Longrightarrow>
     act \<in> {''check_pixel'', ''wait'', ''wait_for_pixel'', ''assert'', ''set_variable'', ''log''}"
  by (simp add: vocabulary_def actionCall_def split: if_splits)


lemma executeAction_returned:
  assumes "actionCall act p = Some c" and "collab ctx c (world s) = (Returned v, w')"
  shows "\<exists>s'. executeAction ctx act p s =
                Some (case replyOutcome act p v of None \<Rightarrow> Inr () | Some e \<Rightarrow> Inl e, s') \<and>
              s'\<lparr>variables := variables s\<rparr> = resume ctx w' s"
proof -
  from executeAction_table [OF assms(1), of ctx s] assms(2)
  have 1: "map_option fst (executeAction ctx act p s) =
             Some (case replyOutcome act p v of None \<Rightarrow> Inr () | Some e \<Rightarrow> Inl e)"
    and 2: "map_option (\<lambda>x. (snd x)\<lparr>variables := variables s\<rparr>) (executeAction ctx act p s) =
             Some (resume ctx w' s)"
    by simp_all
  from 1 obtain y where y: "executeAction ctx act p s = Some y" by auto
  with 1 2 show ?thesis by (cases y) simp
qed

lemma executeAction_threw:
  assumes "actionCall act p = Some c" and "collab ctx c (world s) = (Threw m, w')"
  shows "executeAction ctx act p s = Some (Inl (Rejected m), resume ctx w' s)"
  using executeAction_table [OF assms(1), of ctx s] assms(2) by simp

lemma executeAction_others:
  "executeAction ctx ''wait'' p s =
     Some (Inr (), resume ctx (timer ctx (orElse (getProp p ''ms'') (JNum 1000)) (world s)) s)"
  "executeAction ctx ''log'' p s =
     Some (Inr (),
           resume ctx (listeners ctx (EvLog (getProp p ''message'') (getProp p ''data'')) (world s))
             (s\<lparr>emitted := emitted s @ [EvLog (getProp p ''message'') (getProp p ''data'')]\<rparr>))"
  "executeAction ctx ''assert'' p s =
     Some (if strictEq (variablesGet s (getProp p ''variable'')) (getProp p ''expected'')
           then Inr ()
           else Inl (AssertionFailed (getProp p ''variable'')
                       (variablesGet s (getProp p ''variable'')) (getProp p ''expected'')), s)"
  "executeAction ctx ''set_variable'' p s =
     Some (Inr (), s\<lparr>variables := (variables s)(getProp p ''name'' \<mapsto> getProp p ''value'')\<rparr>)"
  by (simp_all add: executeAction_def delay_def emit_def Let_def throw_def ok_def variablesSet_def)

lemma executeAction_wait_for_pixel:
  assumes "asPixelColor (getProp p ''expected'') = Some e"
    and "asNumber (orElse (getProp p ''timeout'') (JNum 30000)) = Some tmo"
    and "asNumber (orElse (getProp p ''tolerance'') (JNum 10)) = Some tol"
  shows "executeAction ctx ''wait_for_pixel'' p s =
     (case waitForPixelColor ctx (getProp p ''x'') (getProp p ''y'') e tmo tol s of
        None \<Rightarrow> None
      | Some (Inl err, s') \<Rightarrow> Some (Inl err, s')
      | Some (Inr found, s') \<Rightarrow> Some (Inr (), s'))"
  using assms
  by (simp add: executeAction_def bindE_def ok_def split: option.split prod.split sum.split)

subsection \<open>The journal of a recording runtime\<close>

lemma journal_resume [simp]: "journal (resume ctx w s) = snd w"
  by (simp add: journal_def resume_def)

lemma journal_emit [simp]: "journal (emit (traced c) ev s) = journal s @ [Heard ev]"
  by (simp add: emit_def traced_def) (simp add: journal_def)

lemma journal_delay [simp]: "journal (delay (traced c) ms s) = journal s @ [Slept ms]"
  by (simp add: delay_def traced_def) (simp add: journal_def)

lemma journal_await [simp]:
  "journal (snd (await (traced c) cl s)) = journal s @ [Called cl]"
  by (simp add: await_def traced_def split: reply.split) (simp add: journal_def)

lemma journal_recordStep [simp]:
  "journal (recordStep (traced c) sr s) = journal s @ [Heard (EvStepComplete sr)]"
  by (simp add: recordStep_def) (simp add: journal_def)

lemma journal_checkPixelColor [simp]:
  "journal (snd (checkPixelColor (traced c) x y e t s)) = journal s @ [Called (GetPixelColor x y)]"
  using journal_await [of c "GetPixelColor x y" s]
  by (simp add: checkPixelColor_def Let_def case_prod_unfold split: sum.split option.split)

lemma extendsBy_refl [simp]: "extendsBy Q s s"
  by (simp add: extendsBy_def)

lemma extendsBy_trans: "extendsBy Q s s1 \<Longrightarrow> extendsBy Q s1 s2 \<Longrightarrow> extendsBy Q s s2"
  by (auto simp: extendsBy_def)

lemma extendsBy_one: "journal s' = journal s @ [e] \<Longrightarrow> Q e \<Longrightarrow> extendsBy Q s s'"
  by (simp add: extendsBy_def)

lemma extendsBy_mono: "extendsBy Q s s' \<Longrightarrow> (\<And>e. Q e \<Longrightarrow> Q' e) \<Longrightarrow> extendsBy Q' s s'"
  unfolding extendsBy_def list_all_iff by blast

lemma polling_inner: "polling e \<Longrightarrow> inner e"
  by (cases e) simp_all

lemma extendsBy_await: "Q (Called cl) \<Longrightarrow> extendsBy Q s (snd (await (traced c) cl s))"
  using journal_await [of c cl s] by (rule extendsBy_one)

lemma extendsBy_checkPixelColor:
  "Q (Called (GetPixelColor x y)) \<Longrightarrow> extendsBy Q s (snd (checkPixelColor (traced c) x y e t s))"
  using journal_checkPixelColor [of c x y e t s] by (rule extendsBy_one)

lemma extendsBy_checkCondition:
  "extendsBy polling s (snd (checkCondition (traced c) cond s))"
  using extendsBy_await [of polling _ s c] extendsBy_checkPixelColor [of polling _ _ s c]
  by (simp add: checkCondition_def case_prod_unfold split: sum.split option.split jsval.split)

lemma logs_mono: "logs Q m \<Longrightarrow> (\<And>e. Q e \<Longrightarrow> Q' e) \<Longrightarrow> logs Q' m"
  unfolding logs_def by (blast intro: extendsBy_mono)

lemma logs_ok [simp]: "logs Q ok"
  by (simp add: logs_def ok_def)

lemma logs_throw [simp]: "logs Q (throw e)"
  by (simp add: logs_def throw_def)

lemma logs_bindE: "logs Q m \<Longrightarrow> (\<And>v. logs Q (f v)) \<Longrightarrow> logs Q (bindE m f)"
  unfolding logs_def bindE_def
  by (fastforce split: option.splits sum.splits prod.splits intro: extendsBy_trans)

lemma logs_await [simp]:
  assumes "Q (Called cl)"
  shows "logs Q (lift (await (traced c) cl))"
  unfolding logs_def lift_def
proof (intro allI impI)
  fix s res s'
  assume "Some (await (traced c) cl s) = Some (res, s')"
  hence "s' = snd (await (traced c) cl s)" by simp
  hence "journal s' = journal s @ [Called cl]" by simp
  thus "extendsBy Q s s'" using assms by (rule extendsBy_one)
qed

lemma logs_perform [simp]: "Q (Called cl) \<Longrightarrow> logs Q (perform (traced c) cl)"
  by (simp add: perform_def logs_bindE)

lemma logs_variablesSet [simp]: "logs Q (variablesSet k v)"
  by (auto simp: logs_def variablesSet_def extendsBy_def journal_def)

lemma logs_member [simp]: "logs Q (member v k)"
  by (cases v) (auto simp: logs_def throw_def)

lemma logs_checkPixelColor [simp]:
  assumes "Q (Called (GetPixelColor x y))"
  shows "logs Q (lift (checkPixelColor (traced c) x y e t))"
  unfolding logs_def lift_def
proof (intro allI impI)
  fix s res s'
  assume "Some (checkPixelColor (traced c) x y e t s) = Some (res, s')"
  hence "s' = snd (checkPixelColor (traced c) x y e t s)" by simp
  hence "journal s' = journal s @ [Called (GetPixelColor x y)]" by simp
  thus "extendsBy Q s s'" using assms by (rule extendsBy_one)
qed

lemma logs_delay [simp]: "Q (Slept ms) \<Longrightarrow> logs Q (\<lambda>s. Some (Inr (), delay (traced c) ms s))"
  by (auto simp: logs_def intro!: extendsBy_one [where e = "Slept ms"])

lemma logs_log [simp]:
  "Q (Heard (EvLog m d)) \<Longrightarrow> logs Q (\<lambda>s. Some (Inr (), emit (traced c) (EvLog m d) s))"
  by (auto simp: logs_def intro!: extendsBy_one [where e = "Heard (EvLog m d)"])

lemma logs_assert [simp]:
  "logs Q (\<lambda>s. let v = variablesGet s k in
                if \<not> strictEq v x then throw (AssertionFailed k v x) s else ok s)"
  by (simp add: logs_def Let_def throw_def ok_def)


lemma extendsBy_delay_poll [simp]: "extendsBy polling s (delay (traced c) (JNum 200) s)"
  by (rule extendsBy_one [where e = "Slept (JNum 200)"]) simp_all

lemma waitForPixelColor_loop_logs:
  assumes run: "waitForPixelColor_loop ctx0 pos0 e0 tmo0 tol0 st0 s0 = Some y0"
  shows "ctx0 = traced c \<longrightarrow> extendsBy polling s0 (snd y0)"
proof (rule waitForPixelColor_loop.raw_induct
    [where P = "\<lambda>ctx pos e tmo tol st s y. ctx = traced c \<longrightarrow> extendsBy polling s (snd y)",
     OF _ run])
  fix loop and ctx :: "('a \<times> obs list) AutomationContext" and pos e tmo tol st s y
  assume IH: "\<And>ctx pos e tmo tol st s y.
                 loop ctx pos e tmo tol st s = Some y \<Longrightarrow>
                 ctx = traced c \<longrightarrow> extendsBy polling s (snd y)"
    and eq: "(if now ctx (world s) - st < tmo then
               (case checkPixelColor ctx (fst pos) (snd pos) e tol s of
                  (Inl err, s') \<Rightarrow> Some (Inl err, s')
                | (Inr matches, s') \<Rightarrow>
                    if matches then Some (Inr True, s')
                    else loop ctx pos e tmo tol st (delay ctx (JNum 200) s'))
             else Some (Inr False, s)) = Some y"
  show "ctx = traced c \<longrightarrow> extendsBy polling s (snd y)"
  proof
    assume ctx: "ctx = traced c"
    show "extendsBy polling s (snd y)"
    proof (cases "now ctx (world s) - st < tmo")
      case False
      with eq show ?thesis by auto
    next
      case True
      obtain res s1 where chk: "checkPixelColor ctx (fst pos) (snd pos) e tol s = (res, s1)"
        by (cases "checkPixelColor ctx (fst pos) (snd pos) e tol s")
      have f1: "extendsBy polling s s1"
        using extendsBy_checkPixelColor [of polling "fst pos" "snd pos" s c e tol] chk ctx by simp
      show ?thesis
      proof (cases res)
        case (Inl err)
        with eq True chk f1 show ?thesis by auto
      next
        case (Inr matches)
        show ?thesis
        proof (cases matches)
          case True
          with eq \<open>now ctx (world s) - st < tmo\<close> chk f1 Inr show ?thesis by auto
        next
          case False
          with eq \<open>now ctx (world s) - st < tmo\<close> chk Inr
          have "loop ctx pos e tmo tol st (delay ctx (JNum 200) s1) = Some y" by simp
          from IH [OF this] ctx have "extendsBy polling (delay (traced c) (JNum 200) s1) (snd y)"
            by simp
          with f1 show ?thesis by (meson extendsBy_delay_poll extendsBy_trans)
        qed
      qed
    qed
  qed
qed

lemma waitForCondition_loop_logs:
  assumes run: "waitForCondition_loop ctx0 cond0 st0 tmo0 s0 = Some y0"
  shows "ctx0 = traced c \<longrightarrow> extendsBy polling s0 (snd y0)"
proof (rule waitForCondition_loop.raw_induct
    [where P = "\<lambda>ctx cond st tmo s y. ctx = traced c \<longrightarrow> extendsBy polling s (snd y)",
     OF _ run])
  fix loop and ctx :: "('a \<times> obs list) AutomationContext" and cond st tmo s y
  assume IH: "\<And>ctx cond st tmo s y.
                 loop ctx cond st tmo s = Some y \<Longrightarrow>
                 ctx = traced c \<longrightarrow> extendsBy polling s (snd y)"
    and eq: "(if now ctx (world s) - st < tmo then
               (case checkCondition ctx cond s of
                  (Inl err, s') \<Rightarrow> Some (Inl err, s')
                | (Inr met, s') \<Rightarrow>
                    if met then Some (Inr True, s')
                    else loop ctx cond st tmo (delay ctx (JNum 200) s'))
             else Some (Inr False, s)) = Some y"
  show "ctx = traced c \<longrightarrow> extendsBy polling s (snd y)"
  proof
    assume ctx: "ctx = traced c"
    show "extendsBy polling s (snd y)"
    proof (cases "now ctx (world s) - st < tmo")
      case False
      with eq show ?thesis by auto
    next
      case True
      obtain res s1 where chk: "checkCondition ctx cond s = (res, s1)"
        by (cases "checkCondition ctx cond s")
      have f1: "extendsBy polling s s1"
        using extendsBy_checkCondition [of s c cond] chk ctx by simp
      show ?thesis
      proof (cases res)
        case (Inl err)
        with eq True chk f1 show ?thesis by auto
      next
        case (Inr met)
        show ?thesis
        proof (cases met)
          case True
          with eq \<open>now ctx (world s) - st < tmo\<close> chk f1 Inr show ?thesis by auto
        next
          case False
          with eq \<open>now ctx (world s) - st < tmo\<close> chk Inr
          have "loop ctx cond st tmo (delay ctx (JNum 200) s1) = Some y" by simp
          from IH [OF this] ctx have "extendsBy polling (delay (traced c) (JNum 200) s1) (snd y)"
            by simp
          with f1 show ?thesis by (meson extendsBy_delay_poll extendsBy_trans)
        qed
      qed
    qed
  qed
qed

lemma logs_waitForPixelColor [simp]:
  "logs polling (waitForPixelColor (traced c) x y e tmo tol)"
  unfolding logs_def waitForPixelColor_def
  using waitForPixelColor_loop_logs by (metis snd_conv)

lemma logs_waitForCondition [simp]: "logs polling (waitForCondition (traced c) cond)"
  unfolding logs_def waitForCondition_def
  using waitForCondition_loop_logs by (metis snd_conv)

lemma logs_waitForPixelColor_inner [simp]:
  "logs inner (waitForPixelColor (traced c) x y e tmo tol)"
  by (rule logs_mono [OF logs_waitForPixelColor]) (rule polling_inner)

lemma logs_executeAction: "logs inner (executeAction (traced c) act p)"
  unfolding executeAction_def
  by (simp add: logs_bindE split: option.split prod.split)


lemma journal_afterDelay:
  "journal (afterDelay (traced c) step s) =
     journal s @ (case waitAfter step of
                    None \<Rightarrow> []
                  | Some ms \<Rightarrow> if ms = 0 then [] else [Slept (JNum ms)])"
  by (simp add: afterDelay_def split: option.split)

lemma executeStep_journal:
  assumes run: "executeStep (traced ctx) step t = Some (res, t')"
  shows "\<exists>ra t2 A D W sr.
      executeAction (traced ctx) (action step) (params step)
        (emit (traced ctx) (EvStepStart (action step) (params step)) t) = Some (ra, t2) \<and>
      journal t2 = journal t @ [Heard (EvStepStart (action step) (params step))] @ A \<and>
      list_all inner A \<and> list_all polling W \<and>
      journal t' = journal t @ [Heard (EvStepStart (action step) (params step))] @ A @ D @ W @
                     [Heard (EvStepComplete sr)] \<and>
      saction sr = action step \<and>
      (case ra of
         Inl e \<Rightarrow> D = [] \<and> W = [] \<and> res = Inl e \<and> \<not> success sr \<and> serror sr = Some e
       | Inr u \<Rightarrow>
           D = (case waitAfter step of
                  None \<Rightarrow> []
                | Some ms \<Rightarrow> if ms = 0 then [] else [Slept (JNum ms)]) \<and>
           (case condition step of
              None \<Rightarrow> W = [] \<and> res = Inr sr \<and> success sr
            | Some cond \<Rightarrow>
                (\<exists>rw t4. waitForCondition (traced ctx) cond (afterDelay (traced ctx) step t2)
                            = Some (rw, t4) \<and>
                         journal t4 = journal t2 @ D @ W \<and>
                         res = (case rw of
                                  Inl e \<Rightarrow> Inl e
                                | Inr met \<Rightarrow> if met then Inr sr else Inl (ConditionNotMet cond)) \<and>
                         success sr = (rw = Inr True) \<and>
                         serror sr = (case res of Inl e \<Rightarrow> Some e | Inr x \<Rightarrow> None))))"
proof -
  let ?c = "traced ctx"
  let ?t1 = "emit ?c (EvStepStart (action step) (params step)) t"
  let ?D = "case waitAfter step of None \<Rightarrow> [] | Some ms \<Rightarrow> if ms = 0 then [] else [Slept (JNum ms)]"
  note tree = executeStep_by_cases [of ?c step t]
  from run tree obtain ra t2 where
    act: "executeAction ?c (action step) (params step) ?t1 = Some (ra, t2)"
    by (cases "executeAction ?c (action step) (params step) ?t1") auto
  from logs_executeAction [of ctx "action step" "params step"] act obtain A where
    A0: "journal t2 = journal ?t1 @ A" and A1: "list_all inner A"
    unfolding logs_def extendsBy_def by blast
  from A0 have A2: "journal t2 = journal t @ [Heard (EvStepStart (action step) (params step))] @ A"
    by simp
  let ?t3 = "afterDelay ?c step t2"
  have D: "journal ?t3 = journal t2 @ ?D" by (rule journal_afterDelay)
  show ?thesis
  proof (cases ra)
    case (Inl e)
    let ?sr = "\<lparr>saction = action step, success = False,
                sduration = now ?c (world t2) - now ?c (world t), serror = Some e\<rparr>"
    from run tree act Inl have r: "res = Inl e" and t': "t' = recordStep ?c ?sr t2"
      by (simp_all add: stepFails_def)
    show ?thesis
      by (rule exI [of _ ra], rule exI [of _ t2], rule exI [of _ A], rule exI [of _ "[]"],
          rule exI [of _ "[]"], rule exI [of _ ?sr])
         (simp add: act A2 A1 Inl r t')
  next
    case (Inr u)
    show ?thesis
    proof (cases "condition step")
      case None
      let ?sr = "\<lparr>saction = action step, success = True,
                  sduration = now ?c (world ?t3) - now ?c (world t), serror = None\<rparr>"
      from run tree act Inr None have r: "res = Inr ?sr" and t': "t' = recordStep ?c ?sr ?t3"
        by (simp_all add: stepSucceeds_def)
      show ?thesis
        by (rule exI [of _ ra], rule exI [of _ t2], rule exI [of _ A], rule exI [of _ ?D],
            rule exI [of _ "[]"], rule exI [of _ ?sr])
           (simp add: act A2 A1 Inr None r t' D)
    next
      case (Some cond)
      from run tree act Inr Some obtain rw t4 where
        wait: "waitForCondition ?c cond ?t3 = Some (rw, t4)"
        by (cases "waitForCondition ?c cond ?t3") auto
      from logs_waitForCondition [of ctx cond] wait obtain W where
        W0: "journal t4 = journal ?t3 @ W" and W1: "list_all polling W"
        unfolding logs_def extendsBy_def by blast
      from W0 D have W2: "journal t4 = journal t2 @ ?D @ W" by simp
      show ?thesis
      proof (cases rw)
        case (Inl e)
        let ?sr = "\<lparr>saction = action step, success = False,
                    sduration = now ?c (world t4) - now ?c (world t), serror = Some e\<rparr>"
        from run tree act Inr Some wait Inl
        have r: "res = Inl e" and t': "t' = recordStep ?c ?sr t4"
          by (simp_all add: stepFails_def)
        show ?thesis
          by (rule exI [of _ ra], rule exI [of _ t2], rule exI [of _ A], rule exI [of _ ?D],
              rule exI [of _ W], rule exI [of _ ?sr])
             (simp add: act A2 A1 W1 \<open>ra = Inr u\<close> Some wait Inl r t' W2)
      next
        case (Inr met)
        show ?thesis
        proof (cases met)
          case True
          let ?sr = "\<lparr>saction = action step, success = True,
                      sduration = now ?c (world t4) - now ?c (world t), serror = None\<rparr>"
          from run tree act \<open>ra = Inr u\<close> Some wait Inr True
          have r: "res = Inr ?sr" and t': "t' = recordStep ?c ?sr t4"
            by (simp_all add: stepSucceeds_def)
          show ?thesis
            by (rule exI [of _ ra], rule exI [of _ t2], rule exI [of _ A], rule exI [of _ ?D],
                rule exI [of _ W], rule exI [of _ ?sr])
               (simp add: act A2 A1 W1 \<open>ra = Inr u\<close> Some wait Inr True r t' W2)
        next
          case False
          let ?sr = "\<lparr>saction = action step, success = False,
                      sduration = now ?c (world t4) - now ?c (world t),
                      serror = Some (ConditionNotMet cond)\<rparr>"
          from run tree act \<open>ra = Inr u\<close> Some wait Inr False
          have r: "res = Inl (ConditionNotMet cond)" and t': "t' = recordStep ?c ?sr t4"
            by (simp_all add: stepFails_def)
          show ?thesis
            by (rule exI [of _ ra], rule exI [of _ t2], rule exI [of _ A], rule exI [of _ ?D],
                rule exI [of _ W], rule exI [of _ ?sr])
               (simp add: act A2 A1 W1 \<open>ra = Inr u\<close> Some wait Inr False r t' W2)
        qed
      qed
    qed
  qed
qed

lemma executeAction_journal:
  assumes "actionCall act p = Some c"
  shows "journalAfter (executeAction (traced ctx) act p) t = Some (journal t @ [Called c])"
proof -
  obtain rp w' where cl: "collab (traced ctx) c (world t) = (rp, w')"
    by (cases "collab (traced ctx) c (world t)")
  hence w': "snd w' = journal t @ [Called c]"
    by (auto simp: traced_def journal_def)
  note tab = executeAction_table [OF assms, of "traced ctx" t]
  show ?thesis
  proof (cases rp)
    case (Threw m)
    with tab cl w' show ?thesis by (simp add: journalAfter_def)
  next
    case (Returned v)
    with tab cl obtain y where y: "executeAction (traced ctx) act p t = Some y"
      and st: "(snd y)\<lparr>variables := variables t\<rparr> = resume (traced ctx) w' t"
      by auto
    have "journal (snd y) = journal ((snd y)\<lparr>variables := variables t\<rparr>)"
      by (simp add: journal_def)
    also have "\<dots> = snd w'" unfolding st by simp
    finally show ?thesis using y w' by (simp add: journalAfter_def)
  qed
qed


text \<open>Steps on the recording fake runtime, evaluated.\<close>

lemmas traced_defs = traced_def tracedStart_def journal_def journalAfter_def quietFake_def
  toggleThenWait_def toggleThenPause_def noWindow_def afterDelay_def delay_def

lemma toggleThenWait_run:
  "map_option (\<lambda>x. (fst x, journal (snd x)))
     (executeStep (traced quietFake) (toggleThenWait 50) tracedStart) =
   Some (Inl (ConditionNotMet (noWindow 400)),
         [Heard (EvStepStart ''toggle_console'' []),
          Called ToggleConsole,
          Slept (JNum 50),
          Called (FindWindow (JStr ''OpenMoHAA'')), Slept (JNum 200),
          Called (FindWindow (JStr ''OpenMoHAA'')), Slept (JNum 200),
          Heard (EvStepComplete
                   \<lparr>saction = ''toggle_console'', success = False, sduration = 450,
                      serror = Some (ConditionNotMet (noWindow 400))\<rparr>)])"
  by (simp add: run_defs traced_defs waitForCondition_def waitForCondition_loop.simps
      effectiveTimeout_def checkCondition_def)

lemma toggleThenPause_run:
  "journalAfter (executeStep (traced quietFake) (toggleThenPause 50)) tracedStart =
   Some [Heard (EvStepStart ''toggle_console'' []),
         Called ToggleConsole,
         Slept (JNum 50),
         Heard (EvStepComplete
                  \<lparr>saction = ''toggle_console'', success = True, sduration = 50,
                     serror = None\<rparr>)]"
  by (simp add: run_defs traced_defs)

section \<open>Properties of the engine\<close>

subsection \<open>Teardown always runs\<close>

text \<open>
  C1.  Whatever the \<^verbatim>\<open>try\<close> block did (completed, stopped at an abort, or threw), the run
  returns, and after the steps started by the \<^verbatim>\<open>try\<close> block every entry of the teardown list
  is started, in order, each with a result of its own behind those of the \<^verbatim>\<open>try\<close> block.
  The teardown loop goes on to the next entry from the state an entry left, whatever the
  outcome of that entry; an entry that threw has left a failure result that carries its error.
\<close>

theorem teardown_always_runs:
  assumes steady: "steadyClock ctx"
  shows "(\<exists>r1 s1 rt res s'.
            tryBlock ctx script (scriptStart ctx script s) = Some (r1, s1) \<and>
            runScript ctx script s = Some (Inr res, s') \<and>
            started s' = started s1 @ map stepKey (teardownList script) \<and>
            map saction rt = map action (teardownList script) \<and>
            tsteps res =
              stepResults s1 @ (case r1 of Inl e \<Rightarrow> [errorRecord e] | Inr u \<Rightarrow> []) @ rt) \<and>
         runTeardown ctx (step # rest) s0 =
           (case executeStep ctx step s0 of
              None \<Rightarrow> None
            | Some (outcome, s1) \<Rightarrow> runTeardown ctx rest s1) \<and>
         (map_option fst (executeStep ctx step s0) = Some (Inl e) \<longrightarrow>
            (\<exists>s1 sr. executeStep ctx step s0 = Some (Inl e, s1) \<and>
                     stepResults s1 = stepResults s0 @ [sr] \<and> saction sr = action step \<and>
                     \<not> success sr \<and> serror sr = Some e))"
proof (intro conjI impI)
  from runScript_effect [OF steady, of script s]
  show "\<exists>r1 s1 rt res s'.
          tryBlock ctx script (scriptStart ctx script s) = Some (r1, s1) \<and>
          runScript ctx script s = Some (Inr res, s') \<and>
          started s' = started s1 @ map stepKey (teardownList script) \<and>
          map saction rt = map action (teardownList script) \<and>
          tsteps res =
            stepResults s1 @ (case r1 of Inl e \<Rightarrow> [errorRecord e] | Inr u \<Rightarrow> []) @ rt"
    by (elim exE conjE) (intro exI conjI, assumption, assumption, simp_all)
next
  show "runTeardown ctx (step # rest) s0 =
          (case executeStep ctx step s0 of
             None \<Rightarrow> None
           | Some (outcome, s1) \<Rightarrow> runTeardown ctx rest s1)"
    by (rule runTeardown_Cons)
next
  assume "map_option fst (executeStep ctx step s0) = Some (Inl e)"
  then obtain s1 where one: "executeStep ctx step s0 = Some (Inl e, s1)" by auto
  from executeStep_effect [OF one] one
  show "\<exists>s1 sr. executeStep ctx step s0 = Some (Inl e, s1) \<and>
                 stepResults s1 = stepResults s0 @ [sr] \<and> saction sr = action step \<and>
                 \<not> success sr \<and> serror sr = Some e"
    by auto
qed

theorem teardown_always_runs_witness:
  "steadyClock quietFake \<and>
   (\<exists>r1 s1 rt res s'.
      tryBlock quietFake failingScript (scriptStart quietFake failingScript fakeStart)
        = Some (r1, s1) \<and>
      runScript quietFake failingScript fakeStart = Some (Inr res, s') \<and>
      started s' = started s1 @ map stepKey (teardownList failingScript) \<and>
      map saction rt = map action (teardownList failingScript) \<and>
      tsteps res = stepResults s1 @ (case r1 of Inl e \<Rightarrow> [errorRecord e] | Inr u \<Rightarrow> []) @ rt) \<and>
   map_option fst (executeStep quietFake (plainStep ''quit_now'' []) fakeStart) =
     Some (Inl (UnknownAction ''quit_now'')) \<and>
   (\<exists>s1 sr. executeStep quietFake (plainStep ''quit_now'' []) fakeStart
               = Some (Inl (UnknownAction ''quit_now''), s1) \<and>
            stepResults s1 = stepResults fakeStart @ [sr] \<and> saction sr = ''quit_now'' \<and>
            \<not> success sr \<and> serror sr = Some (UnknownAction ''quit_now''))"
  using teardown_always_runs [OF quietFake_steady, of failingScript fakeStart
          "plainStep ''quit_now'' []" "[]" fakeStart "UnknownAction ''quit_now''"]
        quietFake_steady quit_now_throws
  by (simp add: plainStep_def)

subsection \<open>An error stops the setup and main phases\<close>

text \<open>
  C2.  When the \<^verbatim>\<open>try\<close> block throws \<open>e\<close>, the entry that threw is the last entry of the
  setup list followed by the main list that was started; the entries before it succeeded, its
  own result is a failure that carries \<open>e\<close>, no later setup or main entry is started, the
  record \<^verbatim>\<open>{action: 'error', success: false, duration: 0, error: e}\<close> follows, and
  then the teardown entries run, all of them.
\<close>

theorem error_stops_setup_and_steps:
  assumes steady: "steadyClock ctx"
    and threw: "map_option fst (tryBlock ctx script (scriptStart ctx script s)) = Some (Inl e)"
  shows "\<exists>n before sr rt res s'.
           n < length (setupList script @ steps script) \<and>
           runScript ctx script s = Some (Inr res, s') \<and>
           started s' = started s @
             map stepKey (take (Suc n) (setupList script @ steps script)) @
             map stepKey (teardownList script) \<and>
           tsteps res = before @
             [sr, \<lparr>saction = ''error'', success = False, sduration = 0, serror = Some e\<rparr>] @ rt \<and>
           length before = n \<and> list_all success before \<and>
           saction sr = action ((setupList script @ steps script) ! n) \<and>
           \<not> success sr \<and> serror sr = Some e \<and>
           map saction rt = map action (teardownList script)"
proof -
  let ?all = "setupList script @ steps script"
  from runScript_effect [OF steady, of script s] obtain r1 s1 n rs s2 rt res where
    t0: "tryBlock ctx script (scriptStart ctx script s) = Some (r1, s1)"
    and tn: "n \<le> length ?all"
    and t1: "started s1 = started s @ map stepKey (take n ?all)"
    and t2: "map saction rs = map action (take n ?all)"
    and t4: "case r1 of
               Inl e \<Rightarrow> rs \<noteq> [] \<and> list_all success (butlast rs) \<and> \<not> success (last rs) \<and>
                        serror (last rs) = Some e
             | Inr u \<Rightarrow> list_all success rs"
    and d1: "started s2 = started s1 @ map stepKey (teardownList script)"
    and d2: "stepResults s2 = rs @ (case r1 of Inl e \<Rightarrow> [errorRecord e] | Inr u \<Rightarrow> []) @ rt"
    and d3: "map saction rt = map action (teardownList script)"
    and res: "res = \<lparr>tname = name script, passed = list_all success (stepResults s2),
                     tduration = now ctx (world s2) - now ctx (world s),
                     tsteps = stepResults s2\<rparr>"
    and run: "runScript ctx script s =
                Some (Inr res, emit ctx (EvScriptComplete res) (s2\<lparr>running := False\<rparr>))"
    by blast
  from threw t0 have r1: "r1 = Inl e" by simp
  from t4 r1 have ne: "rs \<noteq> []" and good: "list_all success (butlast rs)"
    and bad: "\<not> success (last rs)" "serror (last rs) = Some e" by simp_all
  have len: "length rs = n"
    using t2 tn by (metis length_map length_take min.absorb2)
  with ne obtain m where n: "n = Suc m" by (cases n) auto
  have m: "m < length ?all" using tn n by simp
  have "saction (last rs) = last (map saction rs)" using ne by (simp add: last_map)
  also have "\<dots> = last (map action (take n ?all))" using t2 by simp
  also have "\<dots> = action (?all ! m)"
    unfolding n by (rule last_map_take [OF m])
  finally have act: "saction (last rs) = action (?all ! m)" .
  have split: "rs = butlast rs @ [last rs]" using ne by simp
  have "stepResults s2 = (butlast rs @ [last rs]) @ [errorRecord e] @ rt"
    using d2 r1 split by simp
  then have "tsteps res = butlast rs @ [last rs, errorRecord e] @ rt"
    using res by simp
  moreover have "started (emit ctx (EvScriptComplete res) (s2\<lparr>running := False\<rparr>)) =
      started s @ map stepKey (take (Suc m) ?all) @ map stepKey (teardownList script)"
    using d1 t1 n by simp
  moreover have "length (butlast rs) = m" using len n by simp
  ultimately show ?thesis
    using m run good bad act d3 unfolding errorRecord_def by blast
qed

theorem error_stops_setup_and_steps_witness:
  "steadyClock quietFake \<and>
   map_option fst (tryBlock quietFake failingScript (scriptStart quietFake failingScript fakeStart))
     = Some (Inl (UnknownAction ''frobnicate'')) \<and>
   (\<exists>n before sr rt res s'.
      n < length (setupList failingScript @ steps failingScript) \<and>
      runScript quietFake failingScript fakeStart = Some (Inr res, s') \<and>
      started s' = started fakeStart @
        map stepKey (take (Suc n) (setupList failingScript @ steps failingScript)) @
        map stepKey (teardownList failingScript) \<and>
      tsteps res = before @
        [sr, \<lparr>saction = ''error'', success = False, sduration = 0,
              serror = Some (UnknownAction ''frobnicate'')\<rparr>] @ rt \<and>
      length before = n \<and> list_all success before \<and>
      saction sr = action ((setupList failingScript @ steps failingScript) ! n) \<and>
      \<not> success sr \<and> serror sr = Some (UnknownAction ''frobnicate'') \<and>
      map saction rt = map action (teardownList failingScript))"
  using error_stops_setup_and_steps [OF quietFake_steady failingScript_throws]
        quietFake_steady failingScript_throws
  by blast

subsection \<open>The run returns a result\<close>

text \<open>
  C3.  The run returns a \<^verbatim>\<open>TestResult\<close> and never an exception.  The \<^verbatim>\<open>try\<close> block (setup and
  main phase) ends, normally or with an exception \<open>e\<close>, in a state \<open>s1\<close>; the teardown phase
  runs from there, after the record \<^verbatim>\<open>{action: 'error', success: false, duration: 0, error: e}\<close>
  was appended for a caught exception, and ends in \<open>s2\<close>.  The steps of the result are the
  results recorded up to \<open>s2\<close>, in this order: one for each of the \<open>n\<close> setup and main entries
  that were started, the synthetic error record if the \<^verbatim>\<open>try\<close> block threw, and one for each
  teardown entry.  \<open>passed\<close> holds exactly when each of them is a success, which is the case
  exactly when the \<^verbatim>\<open>try\<close> block did not throw and every teardown result is a success.  A
  script without entries records nothing and passes.
\<close>

theorem runScript_returns_result:
  assumes steady: "steadyClock ctx"
  shows "\<exists>r1 s1 s2 n rt res s'.
           tryBlock ctx script (scriptStart ctx script s) = Some (r1, s1) \<and>
           teardownPhase ctx script
             (s1\<lparr>stepResults := stepResults s1 @
                    (case r1 of Inl e \<Rightarrow> [\<lparr>saction = ''error'', success = False, sduration = 0,
                                           serror = Some e\<rparr>]
                              | Inr u \<Rightarrow> [])\<rparr>) = Some (Inr (), s2) \<and>
           runScript ctx script s = Some (Inr res, s') \<and>
           tname res = name script \<and>
           tsteps res = stepResults s' \<and>
           tsteps res = stepResults s2 \<and>
           tsteps res =
             stepResults s1 @
             (case r1 of Inl e \<Rightarrow> [\<lparr>saction = ''error'', success = False, sduration = 0,
                                    serror = Some e\<rparr>]
                       | Inr u \<Rightarrow> []) @ rt \<and>
           n \<le> length (setupList script @ steps script) \<and>
           map saction (stepResults s1) = map action (take n (setupList script @ steps script)) \<and>
           map saction rt = map action (teardownList script) \<and>
           (passed res \<longleftrightarrow> (\<forall>sr \<in> set (tsteps res). success sr)) \<and>
           (passed res \<longleftrightarrow> (\<exists>u. r1 = Inr u) \<and> (\<forall>sr \<in> set rt. success sr)) \<and>
           \<not> running s' \<and>
           (setupList script = [] \<and> steps script = [] \<and> teardownList script = [] \<longrightarrow>
              tsteps res = [] \<and> passed res)"
proof -
  let ?all = "setupList script @ steps script" and ?td = "teardownList script"
  let ?s0 = "scriptStart ctx script s"
  from tryBlock_effect [OF steady, of script ?s0] obtain r1 s1 n rs where
    t0: "tryBlock ctx script ?s0 = Some (r1, s1)" and tn: "n \<le> length ?all"
    and t2: "stepResults s1 = rs" "map saction rs = map action (take n ?all)"
    and t4: "case r1 of
               Inl e \<Rightarrow> rs \<noteq> [] \<and> list_all success (butlast rs) \<and> \<not> success (last rs) \<and>
                        serror (last rs) = Some e
             | Inr u \<Rightarrow> list_all success rs"
    by auto
  let ?extra = "case r1 of Inl e \<Rightarrow> [\<lparr>saction = ''error'', success = False, sduration = 0,
                                       serror = Some e\<rparr>]
                          | Inr u \<Rightarrow> []"
  let ?s1c = "s1\<lparr>stepResults := stepResults s1 @ ?extra\<rparr>"
  have caught: "tryCatch (tryBlock ctx script) recordError ?s0 = Some (Inr (), ?s1c)"
    using t0 by (cases r1) (simp_all add: tryCatch_def recordError_def errorRecord_def)
  let ?s1t = "if ?td = [] then ?s1c else emit ctx (EvPhase ''teardown'') ?s1c"
  have base: "stepResults ?s1t = rs @ ?extra"
    using t2 by (simp add: emit_def resume_def)
  from runTeardown_effect [OF steady, of ?td ?s1t] obtain s2 rt where
    d0: "runTeardown ctx ?td ?s1t = Some (Inr (), s2)"
    and d2: "stepResults s2 = stepResults ?s1t @ rt" "map saction rt = map action ?td"
    by blast
  have td: "teardownPhase ctx script ?s1c = Some (Inr (), s2)"
    using d0 by (auto simp: teardownPhase_eq)
  let ?res = "\<lparr>tname = name script, passed = list_all success (stepResults s2),
               tduration = now ctx (world s2) - now ctx (world s), tsteps = stepResults s2\<rparr>"
  let ?s' = "emit ctx (EvScriptComplete ?res) (s2\<lparr>running := False\<rparr>)"
  have run: "runScript ctx script s = Some (Inr ?res, ?s')"
    using caught td by (simp add: runScript_def tryFinally_def bindE_def Let_def)
  have all: "stepResults s2 = stepResults s1 @ ?extra @ rt" using d2(1) base t2(1) by simp
  have p1: "passed ?res \<longleftrightarrow> (\<forall>sr \<in> set (tsteps ?res). success sr)"
    by (simp add: list_all_iff)
  have p2: "passed ?res \<longleftrightarrow> (\<exists>u. r1 = Inr u) \<and> (\<forall>sr \<in> set rt. success sr)"
  proof (cases r1)
    case (Inl e)
    thus ?thesis by (simp add: all)
  next
    case (Inr u)
    with t4 have "list_all success rs" by simp
    with Inr t2(1) show ?thesis by (auto simp: all list_all_iff)
  qed
  have empty: "tsteps ?res = [] \<and> passed ?res"
    if e: "setupList script = [] \<and> steps script = [] \<and> teardownList script = []"
  proof -
    from t2 e have "rs = []" by simp
    moreover from this t4 have "\<exists>u. r1 = Inr u" by (cases r1) simp_all
    moreover from d2(2) e have "rt = []" by simp
    ultimately show ?thesis using all t2(1) by auto
  qed
  have 1: "tname ?res = name script" by simp
  have 2: "tsteps ?res = stepResults ?s'" by simp
  have 3: "tsteps ?res = stepResults s2" by simp
  have 4: "tsteps ?res = stepResults s1 @ ?extra @ rt" using all by simp
  have 5: "map saction (stepResults s1) = map action (take n ?all)" using t2 by simp
  have 6: "\<not> running ?s'" by simp
  from t0 td run 1 2 3 4 tn 5 d2(2) p1 p2 6 empty show ?thesis by blast
qed

text \<open>
  The run of \<open>failingScript\<close>: the setup entry and the first main entry succeed, the second
  main entry throws, the third is not started, and of the two teardown entries the first
  throws.  The result lists the three started entries, the error record and the two
  teardown entries, and it has not passed.
\<close>

theorem runScript_returns_result_witness:
  "steadyClock quietFake \<and>
   (\<exists>res s'. runScript quietFake failingScript fakeStart = Some (Inr res, s') \<and>
      tname res = ''failing'' \<and> tsteps res = stepResults s' \<and> \<not> running s' \<and>
      \<not> passed res \<and>
      tsteps res =
        [\<lparr>saction = ''launch'', success = True, sduration = 0, serror = None\<rparr>,
         \<lparr>saction = ''toggle_console'', success = True, sduration = 0, serror = None\<rparr>,
         \<lparr>saction = ''frobnicate'', success = False, sduration = 0,
            serror = Some (UnknownAction ''frobnicate'')\<rparr>,
         \<lparr>saction = ''error'', success = False, sduration = 0,
            serror = Some (UnknownAction ''frobnicate'')\<rparr>,
         \<lparr>saction = ''quit_now'', success = False, sduration = 0,
            serror = Some (UnknownAction ''quit_now'')\<rparr>,
         \<lparr>saction = ''command'', success = True, sduration = 0, serror = None\<rparr>]) \<and>
   setupList emptyScript = [] \<and> steps emptyScript = [] \<and> teardownList emptyScript = [] \<and>
   (\<exists>res s'. runScript quietFake emptyScript fakeStart = Some (Inr res, s') \<and>
      tsteps res = [] \<and> passed res)"
proof -
  from runScript_returns_result [OF quietFake_steady, of failingScript fakeStart]
  obtain res s' where
    run: "runScript quietFake failingScript fakeStart = Some (Inr res, s')"
    and r1: "tname res = name failingScript" "tsteps res = stepResults s'" "\<not> running s'"
    and r2: "passed res \<longleftrightarrow> (\<forall>sr \<in> set (tsteps res). success sr)"
    by blast
  from failingScript_results run have steps:
    "tsteps res =
        [\<lparr>saction = ''launch'', success = True, sduration = 0, serror = None\<rparr>,
         \<lparr>saction = ''toggle_console'', success = True, sduration = 0, serror = None\<rparr>,
         \<lparr>saction = ''frobnicate'', success = False, sduration = 0,
            serror = Some (UnknownAction ''frobnicate'')\<rparr>,
         \<lparr>saction = ''error'', success = False, sduration = 0,
            serror = Some (UnknownAction ''frobnicate'')\<rparr>,
         \<lparr>saction = ''quit_now'', success = False, sduration = 0,
            serror = Some (UnknownAction ''quit_now'')\<rparr>,
         \<lparr>saction = ''command'', success = True, sduration = 0, serror = None\<rparr>]"
    by simp
  with r2 have np: "\<not> passed res" by simp
  have nm: "tname res = ''failing''" using r1(1) by (simp add: failingScript_def)
  have first: "\<exists>res s'. runScript quietFake failingScript fakeStart = Some (Inr res, s') \<and>
      tname res = ''failing'' \<and> tsteps res = stepResults s' \<and> \<not> running s' \<and>
      \<not> passed res \<and>
      tsteps res =
        [\<lparr>saction = ''launch'', success = True, sduration = 0, serror = None\<rparr>,
         \<lparr>saction = ''toggle_console'', success = True, sduration = 0, serror = None\<rparr>,
         \<lparr>saction = ''frobnicate'', success = False, sduration = 0,
            serror = Some (UnknownAction ''frobnicate'')\<rparr>,
         \<lparr>saction = ''error'', success = False, sduration = 0,
            serror = Some (UnknownAction ''frobnicate'')\<rparr>,
         \<lparr>saction = ''quit_now'', success = False, sduration = 0,
            serror = Some (UnknownAction ''quit_now'')\<rparr>,
         \<lparr>saction = ''command'', success = True, sduration = 0, serror = None\<rparr>]"
    using run nm r1(2,3) np steps by (intro exI conjI) assumption+
  have e: "setupList emptyScript = [] \<and> steps emptyScript = [] \<and> teardownList emptyScript = []"
    by (simp add: emptyScript_def setupList_def teardownList_def)
  from runScript_returns_result [OF quietFake_steady, of emptyScript fakeStart] e
  have second: "\<exists>res s'. runScript quietFake emptyScript fakeStart = Some (Inr res, s') \<and>
      tsteps res = [] \<and> passed res"
    by blast
  from quietFake_steady first e second show ?thesis by simp
qed

subsection \<open>Aborting a run\<close>

text \<open>
  C4 (amended).  The run clears the abort flag when it begins, so a call of \<^verbatim>\<open>abort()\<close>
  counts only when it is made after that.  When the flag is set, the loop of a phase starts no
  entry.  A setup phase or a main phase that the run reaches with the flag set (by a call of
  \<^verbatim>\<open>abort()\<close> at any moment of the run up to and including the notification of that phase)
  starts no entry and records nothing.  The teardown phase starts every entry of its list from
  any state, and it is blind to the flag, as is every single step: the flag is read between
  the entries of the setup and main loops and nowhere else.  A run that is aborted during the
  notification of its start starts the teardown entries and nothing else.
\<close>

theorem abort_skips_phase_not_teardown:
  "(aborted s \<longrightarrow> runPhase ctx list s = Some (Inr (), s)) \<and>
   (aborted (emit ctx (EvPhase ''setup'') s) \<longrightarrow>
      (\<exists>s'. setupPhase ctx script s = Some (Inr (), s') \<and> started s' = started s \<and>
            stepResults s' = stepResults s)) \<and>
   (aborted s \<or> aborted (emit ctx (EvPhase ''main'') s) \<longrightarrow>
      (\<exists>s'. mainPhase ctx script s = Some (Inr (), s') \<and> started s' = started s \<and>
            stepResults s' = stepResults s)) \<and>
   (steadyClock ctx \<longrightarrow>
      (\<exists>s'. teardownPhase ctx script s = Some (Inr (), s') \<and>
            started s' = started s @ map stepKey (teardownList script)) \<and>
      teardownPhase ctx script (flagged s) =
        map_option (apsnd flagged) (teardownPhase ctx script s) \<and>
      executeStep ctx step (flagged s) = map_option (apsnd flagged) (executeStep ctx step s)) \<and>
   (steadyClock ctx \<and> aborted (scriptStart ctx script s) \<longrightarrow>
      (\<exists>res s'. runScript ctx script s = Some (Inr res, s') \<and>
                started s' = started s @ map stepKey (teardownList script) \<and>
                map saction (tsteps res) = map action (teardownList script))) \<and>
   (abortCalls ctx (listeners ctx (EvScriptStart (name script)) (world s)) = abortCalls ctx (world s)
      \<longrightarrow> \<not> aborted (scriptStart ctx script s)) \<and>
   aborted (abort ctx s)"
proof (intro conjI impI)
  assume "aborted s"
  then show "runPhase ctx list s = Some (Inr (), s)" by (rule runPhase_aborted)
next
  assume "aborted (emit ctx (EvPhase ''setup'') s)"
  from setupPhase_aborted [OF this]
  show "\<exists>s'. setupPhase ctx script s = Some (Inr (), s') \<and> started s' = started s \<and>
            stepResults s' = stepResults s" by blast
next
  assume "aborted s \<or> aborted (emit ctx (EvPhase ''main'') s)"
  then show "\<exists>s'. mainPhase ctx script s = Some (Inr (), s') \<and> started s' = started s \<and>
            stepResults s' = stepResults s" by (rule mainPhase_aborted)
next
  assume steady: "steadyClock ctx"
  let ?s0 = "if teardownList script = [] then s else emit ctx (EvPhase ''teardown'') s"
  from runTeardown_effect [OF steady, of "teardownList script" ?s0] obtain s' where
    "runTeardown ctx (teardownList script) ?s0 = Some (Inr (), s')"
    "started s' = started ?s0 @ map stepKey (teardownList script)" by blast
  then show "\<exists>s'. teardownPhase ctx script s = Some (Inr (), s') \<and>
            started s' = started s @ map stepKey (teardownList script)"
    by (auto simp: teardownPhase_eq)
  show "teardownPhase ctx script (flagged s) =
        map_option (apsnd flagged) (teardownPhase ctx script s)"
    using blind_teardownPhase [OF steady, of script] unfolding blind_def by blast
  show "executeStep ctx step (flagged s) = map_option (apsnd flagged) (executeStep ctx step s)"
    using blind_executeStep [OF steady, of step] unfolding blind_def by blast
next
  assume a: "steadyClock ctx \<and> aborted (scriptStart ctx script s)"
  let ?s0 = "scriptStart ctx script s"
  from a have "aborted (emit ctx (EvPhase ''setup'') ?s0)" by (simp add: aborted_emit)
  from setupPhase_aborted [OF this, of script] a obtain s1 where
    su: "setupPhase ctx script ?s0 = Some (Inr (), s1)" and s1: "started s1 = started ?s0"
    "stepResults s1 = stepResults ?s0" "aborted s1" by blast
  from mainPhase_aborted [of s1 ctx script] s1 obtain s2 where
    ma: "mainPhase ctx script s1 = Some (Inr (), s2)" and s2: "started s2 = started s1"
    "stepResults s2 = stepResults s1" by blast
  have tb: "tryBlock ctx script ?s0 = Some (Inr (), s2)"
    using su ma by (simp add: tryBlock_def bindE_def)
  from runScript_effect [of ctx script s] a obtain r1 s1' rs s3 rt res where
    t0: "tryBlock ctx script ?s0 = Some (r1, s1')" and t2: "stepResults s1' = rs"
    and d1: "started s3 = started s1' @ map stepKey (teardownList script)"
    and d2: "stepResults s3 = rs @ (case r1 of Inl e \<Rightarrow> [errorRecord e] | Inr u \<Rightarrow> []) @ rt"
    and d3: "map saction rt = map action (teardownList script)"
    and res: "res = \<lparr>tname = name script, passed = list_all success (stepResults s3),
                     tduration = now ctx (world s3) - now ctx (world s),
                     tsteps = stepResults s3\<rparr>"
    and run: "runScript ctx script s =
                Some (Inr res, emit ctx (EvScriptComplete res) (s3\<lparr>running := False\<rparr>))"
    by blast
  from t0 tb have eq: "r1 = Inr ()" "s1' = s2" by simp_all
  have "stepResults s3 = rt" using d2 t2 eq s2 s1 by simp
  moreover have "started s3 = started s @ map stepKey (teardownList script)"
    using d1 eq s2 s1 by simp
  ultimately show "\<exists>res s'. runScript ctx script s = Some (Inr res, s') \<and>
                started s' = started s @ map stepKey (teardownList script) \<and>
                map saction (tsteps res) = map action (teardownList script)"
    using run res d3 by simp
next
  assume "abortCalls ctx (listeners ctx (EvScriptStart (name script)) (world s))
            = abortCalls ctx (world s)"
  then show "\<not> aborted (scriptStart ctx script s)"
    by (simp add: scriptStart_def emit_def resume_def)
next
  show "aborted (abort ctx s)"
    by (simp add: abort_def aborted_emit)
qed

theorem abort_skips_phase_not_teardown_witness:
  "steadyClock abortingFake \<and> aborted (scriptStart abortingFake failingScript fakeStart) \<and>
   (\<exists>res s'. runScript abortingFake failingScript fakeStart = Some (Inr res, s') \<and>
      started s' = started fakeStart @ map stepKey (teardownList failingScript) \<and>
      map saction (tsteps res) = map action (teardownList failingScript)) \<and>
   runPhase abortingFake (steps failingScript) (scriptStart abortingFake failingScript fakeStart)
     = Some (Inr (), scriptStart abortingFake failingScript fakeStart) \<and>
   aborted (emit abortingFake (EvPhase ''setup'')
              (scriptStart abortingFake failingScript fakeStart)) \<and>
   (\<exists>s'. setupPhase abortingFake failingScript (scriptStart abortingFake failingScript fakeStart)
            = Some (Inr (), s') \<and>
         started s' = started (scriptStart abortingFake failingScript fakeStart)) \<and>
   (\<exists>s'. mainPhase abortingFake failingScript (scriptStart abortingFake failingScript fakeStart)
            = Some (Inr (), s') \<and>
         started s' = started (scriptStart abortingFake failingScript fakeStart)) \<and>
   (\<exists>s'. teardownPhase abortingFake failingScript
            (scriptStart abortingFake failingScript fakeStart) = Some (Inr (), s') \<and>
         started s' = started (scriptStart abortingFake failingScript fakeStart) @
                        map stepKey (teardownList failingScript)) \<and>
   executeStep abortingFake (plainStep ''quit_now'' []) (flagged fakeStart) =
     map_option (apsnd flagged) (executeStep abortingFake (plainStep ''quit_now'' []) fakeStart) \<and>
   abortCalls quietFake (listeners quietFake (EvScriptStart (name failingScript))
     (world (abort quietFake fakeStart))) = abortCalls quietFake (world (abort quietFake fakeStart)) \<and>
   aborted (abort quietFake fakeStart) \<and>
   \<not> aborted (scriptStart quietFake failingScript (abort quietFake fakeStart))"
proof -
  let ?s0 = "scriptStart abortingFake failingScript fakeStart"
  note A = abort_skips_phase_not_teardown [where ctx = abortingFake and script = failingScript
      and s = fakeStart and step = "plainStep ''quit_now'' []"]
  note B = abort_skips_phase_not_teardown [where ctx = abortingFake and script = failingScript
      and s = ?s0 and list = "steps failingScript"]
  note C = abort_skips_phase_not_teardown [where ctx = quietFake and script = failingScript
      and s = "abort quietFake fakeStart"]
  have q: "abortCalls quietFake (listeners quietFake (EvScriptStart (name failingScript))
             (world (abort quietFake fakeStart))) = abortCalls quietFake (world (abort quietFake fakeStart))"
    by (simp add: quietFake_def fake_def never_def)
  have e: "aborted (emit abortingFake (EvPhase ''setup'') ?s0)"
    using abortingFake_start by (rule aborted_emit)
  note A5 = A [THEN conjunct2, THEN conjunct2, THEN conjunct2, THEN conjunct2, THEN conjunct1]
  note A4 = A [THEN conjunct2, THEN conjunct2, THEN conjunct2, THEN conjunct1]
  note B1 = B [THEN conjunct1]
  note B2 = B [THEN conjunct2, THEN conjunct1]
  note B3 = B [THEN conjunct2, THEN conjunct2, THEN conjunct1]
  note B4 = B [THEN conjunct2, THEN conjunct2, THEN conjunct2, THEN conjunct1]
  note C6 = C [THEN conjunct2, THEN conjunct2, THEN conjunct2, THEN conjunct2, THEN conjunct2,
      THEN conjunct1]
  note D7 = abort_skips_phase_not_teardown [where ctx = quietFake and s = fakeStart,
      THEN conjunct2, THEN conjunct2, THEN conjunct2, THEN conjunct2, THEN conjunct2,
      THEN conjunct2]
  have a1: "\<exists>res s'. runScript abortingFake failingScript fakeStart = Some (Inr res, s') \<and>
      started s' = started fakeStart @ map stepKey (teardownList failingScript) \<and>
      map saction (tsteps res) = map action (teardownList failingScript)"
    using A5 abortingFake_steady abortingFake_start by simp
  have a2: "executeStep abortingFake (plainStep ''quit_now'' []) (flagged fakeStart) =
      map_option (apsnd flagged) (executeStep abortingFake (plainStep ''quit_now'' []) fakeStart)"
    using A4 [rule_format, OF abortingFake_steady] by simp
  have b1: "runPhase abortingFake (steps failingScript) ?s0 = Some (Inr (), ?s0)"
    using B1 abortingFake_start by simp
  have b3: "\<exists>s'. setupPhase abortingFake failingScript ?s0 = Some (Inr (), s') \<and>
               started s' = started ?s0"
    using B2 [rule_format, OF e] by auto
  have b2: "\<exists>s'. mainPhase abortingFake failingScript ?s0 = Some (Inr (), s') \<and>
               started s' = started ?s0"
    using B3 [rule_format, OF disjI1, OF abortingFake_start] by auto
  have b4: "\<exists>s'. teardownPhase abortingFake failingScript ?s0 = Some (Inr (), s') \<and>
               started s' = started ?s0 @ map stepKey (teardownList failingScript)"
    using B4 [rule_format, OF abortingFake_steady] by simp
  have c1: "\<not> aborted (scriptStart quietFake failingScript (abort quietFake fakeStart))"
    using C6 [rule_format, OF q] .
  have c2: "aborted (abort quietFake fakeStart)"
    by (rule D7)
  show ?thesis
    using a1 a2 b1 b2 b3 b4 c1 c2 e q abortingFake_steady abortingFake_start
    by (intro conjI) assumption+
qed

text \<open>
  A call of \<^verbatim>\<open>abort()\<close> made before \<^verbatim>\<open>runScript\<close> is called sets the flag, and the run that
  follows still starts its setup entry and its main entries up to the one that throws.
\<close>

theorem abort_skips_phase_not_teardown_counterexample:
  "aborted (abort quietFake fakeStart) \<and>
   startedActions (runScript quietFake failingScript) (abort quietFake fakeStart) =
     Some [''launch'', ''toggle_console'', ''frobnicate'', ''quit_now'', ''command'']"
  by (simp add: startedActions_def abort_def run_defs quietFake_def failingScript_def
      runScript_def tryFinally_def tryCatch_def recordError_def errorRecord_def
      teardownPhase_def Let_def)

subsection \<open>The order of a step\<close>

text \<open>
  C5 (amended).  An action outside the vocabulary throws \<^verbatim>\<open>Unknown action\<close> and calls nothing;
  an action of the vocabulary never throws that error.

  An action of the action table is dispatched to its collaborator call \<open>c\<close>, with the
  arguments the table gives, and to nothing else: when the call rejects, the action throws
  the rejection; when the call returns \<open>v\<close>, the action completes or throws as
  \<open>replyOutcome\<close> says, in the state the call left, up to the variables that \<^verbatim>\<open>get_cvar\<close> and
  \<^verbatim>\<open>find_image\<close> store; on a runtime that records its interactions, the action adds the
  single entry \<open>Called c\<close> to the journal.  The actions of the vocabulary outside the table
  are \<^verbatim>\<open>wait\<close> (a timer of \<^verbatim>\<open>params.ms || 1000\<close>), \<^verbatim>\<open>log\<close> (the listeners), \<^verbatim>\<open>assert\<close> and
  \<^verbatim>\<open>set_variable\<close> (no interaction), \<^verbatim>\<open>wait_for_pixel\<close> (the polling loop of
  \<^verbatim>\<open>waitForPixelColor\<close>), and \<^verbatim>\<open>check_pixel\<close> with parameters that are not a colour and a
  number.

  A step starts with its action.  When the action throws, the failure is recorded in the
  state the action left and the error is thrown on: no delay and no condition wait take
  place.  When the action completes, the \<^verbatim>\<open>waitAfter\<close> delay follows if \<^verbatim>\<open>waitAfter\<close> is set
  and is not 0 (a \<^verbatim>\<open>waitAfter\<close> of 0 sets no timer), then the wait for the condition (if
  set); the step succeeds if there is no condition or the condition is met, and throws
  \<^verbatim>\<open>Condition not met\<close> if the wait ends with \<^verbatim>\<open>false\<close>.

  On a runtime that records its interactions the journal of a step that returns is, in this
  order: the notification that the step starts; the entries \<open>A\<close> of the action, none of them
  a notification of a step; the entries \<open>D\<close> of the delay, which are none when the action
  threw, when \<^verbatim>\<open>waitAfter\<close> is absent or 0, and the one timer of \<^verbatim>\<open>waitAfter\<close> ms otherwise;
  the entries \<open>W\<close> of the condition wait, which are none when the action threw or there is
  no condition, and collaborator calls and timers of 200 ms otherwise; the notification
  that the step is complete, with the result of the step.
\<close>

theorem executeStep_order:
  "(act \<notin> set vocabulary \<longrightarrow> executeAction ctx act p s = Some (Inl (UnknownAction act), s)) \<and>
   (act \<in> set vocabulary \<longrightarrow>
      map_option fst (executeAction ctx act p s) \<noteq> Some (Inl (UnknownAction a))) \<and>
   (actionCall act p = Some c \<longrightarrow>
      act \<in> set vocabulary \<and>
      (collab ctx c (world s) = (Threw m, w') \<longrightarrow>
         executeAction ctx act p s = Some (Inl (Rejected m), resume ctx w' s)) \<and>
      (collab ctx c (world s) = (Returned v, w') \<longrightarrow>
         (\<exists>s'. executeAction ctx act p s =
                  Some (case replyOutcome act p v of None \<Rightarrow> Inr () | Some e \<Rightarrow> Inl e, s') \<and>
                s'\<lparr>variables := variables s\<rparr> = resume ctx w' s)) \<and>
      journalAfter (executeAction (traced ctx) act p) t = Some (journal t @ [Called c])) \<and>
   (act \<in> set vocabulary \<and> actionCall act p = None \<longrightarrow>
      act \<in> {''check_pixel'', ''wait'', ''wait_for_pixel'', ''assert'', ''set_variable'', ''log''}) \<and>
   executeAction ctx ''wait'' p s =
     Some (Inr (), resume ctx (timer ctx (orElse (getProp p ''ms'') (JNum 1000)) (world s)) s) \<and>
   executeAction ctx ''log'' p s =
     Some (Inr (),
           resume ctx (listeners ctx (EvLog (getProp p ''message'') (getProp p ''data'')) (world s))
             (s\<lparr>emitted := emitted s @ [EvLog (getProp p ''message'') (getProp p ''data'')]\<rparr>)) \<and>
   executeAction ctx ''assert'' p s =
     Some (if strictEq (variablesGet s (getProp p ''variable'')) (getProp p ''expected'')
           then Inr ()
           else Inl (AssertionFailed (getProp p ''variable'')
                       (variablesGet s (getProp p ''variable'')) (getProp p ''expected'')), s) \<and>
   (asPixelColor (getProp p ''expected'') = Some ex \<and>
    asNumber (orElse (getProp p ''timeout'') (JNum 30000)) = Some tmo \<and>
    asNumber (orElse (getProp p ''tolerance'') (JNum 10)) = Some tol \<longrightarrow>
      executeAction ctx ''wait_for_pixel'' p s =
        (case waitForPixelColor ctx (getProp p ''x'') (getProp p ''y'') ex tmo tol s of
           None \<Rightarrow> None
         | Some (Inl err, s') \<Rightarrow> Some (Inl err, s')
         | Some (Inr found, s') \<Rightarrow> Some (Inr (), s'))) \<and>
   executeStep ctx step s =
     (case executeAction ctx (action step) (params step)
             (emit ctx (EvStepStart (action step) (params step)) s) of
        None \<Rightarrow> None
      | Some (Inl e, s2) \<Rightarrow> stepFails ctx step e s s2
      | Some (Inr u, s2) \<Rightarrow>
          (case condition step of
             None \<Rightarrow> stepSucceeds ctx step s (afterDelay ctx step s2)
           | Some cond \<Rightarrow>
               (case waitForCondition ctx cond (afterDelay ctx step s2) of
                  None \<Rightarrow> None
                | Some (Inl e, s4) \<Rightarrow> stepFails ctx step e s s4
                | Some (Inr met, s4) \<Rightarrow>
                    if met then stepSucceeds ctx step s s4
                    else stepFails ctx step (ConditionNotMet cond) s s4))) \<and>
   (executeStep (traced ctx) step t = Some (res, t') \<longrightarrow>
      (\<exists>ra t2 A D W sr.
         executeAction (traced ctx) (action step) (params step)
           (emit (traced ctx) (EvStepStart (action step) (params step)) t) = Some (ra, t2) \<and>
         journal t2 = journal t @ [Heard (EvStepStart (action step) (params step))] @ A \<and>
         list_all inner A \<and> list_all polling W \<and>
         journal t' = journal t @ [Heard (EvStepStart (action step) (params step))] @ A @ D @ W @
                        [Heard (EvStepComplete sr)] \<and>
         saction sr = action step \<and>
         (case ra of
            Inl e \<Rightarrow> D = [] \<and> W = [] \<and> res = Inl e \<and> \<not> success sr \<and> serror sr = Some e
          | Inr u \<Rightarrow>
              D = (case waitAfter step of
                     None \<Rightarrow> []
                   | Some ms \<Rightarrow> if ms = 0 then [] else [Slept (JNum ms)]) \<and>
              (case condition step of
                 None \<Rightarrow> W = [] \<and> res = Inr sr \<and> success sr
               | Some cond \<Rightarrow>
                   (\<exists>rw t4. waitForCondition (traced ctx) cond (afterDelay (traced ctx) step t2)
                               = Some (rw, t4) \<and>
                            journal t4 = journal t2 @ D @ W \<and>
                            res = (case rw of
                                     Inl e \<Rightarrow> Inl e
                                   | Inr met \<Rightarrow> if met then Inr sr
                                                else Inl (ConditionNotMet cond)) \<and>
                            success sr = (rw = Inr True) \<and>
                            serror sr = (case res of Inl e \<Rightarrow> Some e | Inr x \<Rightarrow> None))))))"
proof -
  have 1: "act \<notin> set vocabulary \<longrightarrow> executeAction ctx act p s = Some (Inl (UnknownAction act), s)"
    by (simp add: vocabulary_def executeAction_def throw_def)
  have 2: "act \<in> set vocabulary \<longrightarrow>
      map_option fst (executeAction ctx act p s) \<noteq> Some (Inl (UnknownAction a))"
    using executeAction_known [of act ctx p] unfolding knownOnly_def by auto
  have 3: "actionCall act p = Some c \<longrightarrow>
      act \<in> set vocabulary \<and>
      (collab ctx c (world s) = (Threw m, w') \<longrightarrow>
         executeAction ctx act p s = Some (Inl (Rejected m), resume ctx w' s)) \<and>
      (collab ctx c (world s) = (Returned v, w') \<longrightarrow>
         (\<exists>s'. executeAction ctx act p s =
                  Some (case replyOutcome act p v of None \<Rightarrow> Inr () | Some e \<Rightarrow> Inl e, s') \<and>
                s'\<lparr>variables := variables s\<rparr> = resume ctx w' s)) \<and>
      journalAfter (executeAction (traced ctx) act p) t = Some (journal t @ [Called c])"
  proof
    assume c: "actionCall act p = Some c"
    have "act \<in> set vocabulary" using c actionCall_vocabulary [of act p] by auto
    with executeAction_threw [OF c, of ctx s m w'] executeAction_returned [OF c, of ctx s v w']
      executeAction_journal [OF c, of ctx t]
    show "act \<in> set vocabulary \<and>
      (collab ctx c (world s) = (Threw m, w') \<longrightarrow>
         executeAction ctx act p s = Some (Inl (Rejected m), resume ctx w' s)) \<and>
      (collab ctx c (world s) = (Returned v, w') \<longrightarrow>
         (\<exists>s'. executeAction ctx act p s =
                  Some (case replyOutcome act p v of None \<Rightarrow> Inr () | Some e \<Rightarrow> Inl e, s') \<and>
                s'\<lparr>variables := variables s\<rparr> = resume ctx w' s)) \<and>
      journalAfter (executeAction (traced ctx) act p) t = Some (journal t @ [Called c])"
      by (intro conjI impI) assumption+
  qed
  have 4: "act \<in> set vocabulary \<and> actionCall act p = None \<longrightarrow>
      act \<in> {''check_pixel'', ''wait'', ''wait_for_pixel'', ''assert'', ''set_variable'', ''log''}"
    by (intro impI, elim conjE) (rule actionCall_complete)
  note 5 = executeAction_others(1) [of ctx p s]
  note 6 = executeAction_others(2) [of ctx p s]
  note 7 = executeAction_others(3) [of ctx p s]
  have 8: "asPixelColor (getProp p ''expected'') = Some ex \<and>
    asNumber (orElse (getProp p ''timeout'') (JNum 30000)) = Some tmo \<and>
    asNumber (orElse (getProp p ''tolerance'') (JNum 10)) = Some tol \<longrightarrow>
      executeAction ctx ''wait_for_pixel'' p s =
        (case waitForPixelColor ctx (getProp p ''x'') (getProp p ''y'') ex tmo tol s of
           None \<Rightarrow> None
         | Some (Inl err, s') \<Rightarrow> Some (Inl err, s')
         | Some (Inr found, s') \<Rightarrow> Some (Inr (), s'))"
    by (intro impI, elim conjE) (rule executeAction_wait_for_pixel)
  note 9 = executeStep_by_cases [of ctx step s]
  note 10 = executeStep_journal [of ctx step t res t', THEN impI [of "executeStep (traced ctx) step t = Some (res, t')"]]
  show ?thesis
    by (intro conjI) (rule 1 2 3 4 5 6 7 8 9 10)+
qed


text \<open>
  An action outside the vocabulary and one inside; the dispatch of \<^verbatim>\<open>command\<close> to
  \<^verbatim>\<open>sendCommand\<close>; a step that toggles the console, waits 50 ms and then polls for a window
  that never exists until 400 ms have passed; and the same step without a condition.
\<close>

theorem executeStep_order_witness:
  "''frobnicate'' \<notin> set vocabulary \<and>
   executeAction quietFake ''frobnicate'' [] fakeStart
     = Some (Inl (UnknownAction ''frobnicate''), fakeStart) \<and>
   ''screenshot'' \<in> set vocabulary \<and>
   map_option fst (executeAction quietFake ''screenshot'' [] fakeStart)
     \<noteq> Some (Inl (UnknownAction ''screenshot'')) \<and>
   actionCall ''command'' [(''command'', JStr ''quit'')] = Some (SendCommand (JStr ''quit'')) \<and>
   collab quietFake (SendCommand (JStr ''quit'')) (world fakeStart) =
     (Returned JNull, \<lparr>clock = 0, callLog = [SendCommand (JStr ''quit'')], aborts = 0\<rparr>) \<and>
   (\<exists>s'. executeAction quietFake ''command'' [(''command'', JStr ''quit'')] fakeStart =
            Some (Inr (), s') \<and>
         s'\<lparr>variables := variables fakeStart\<rparr> =
           resume quietFake \<lparr>clock = 0, callLog = [SendCommand (JStr ''quit'')], aborts = 0\<rparr>
             fakeStart) \<and>
   journalAfter (executeAction (traced quietFake) ''command'' [(''command'', JStr ''quit'')])
     tracedStart = Some [Called (SendCommand (JStr ''quit''))] \<and>
   (\<exists>t'. executeStep (traced quietFake) (toggleThenWait 50) tracedStart =
            Some (Inl (ConditionNotMet (noWindow 400)), t') \<and>
         journal t' =
           [Heard (EvStepStart ''toggle_console'' []),
            Called ToggleConsole,
            Slept (JNum 50),
            Called (FindWindow (JStr ''OpenMoHAA'')), Slept (JNum 200),
            Called (FindWindow (JStr ''OpenMoHAA'')), Slept (JNum 200),
            Heard (EvStepComplete
                     \<lparr>saction = ''toggle_console'', success = False, sduration = 450,
                        serror = Some (ConditionNotMet (noWindow 400))\<rparr>)] \<and>
         (\<exists>A D W sr. journal t' =
                        [Heard (EvStepStart ''toggle_console'' [])] @ A @ D @ W @
                        [Heard (EvStepComplete sr)] \<and>
                      list_all inner A \<and> list_all polling W)) \<and>
   journalAfter (executeStep (traced quietFake) (toggleThenPause 50)) tracedStart =
     Some [Heard (EvStepStart ''toggle_console'' []),
           Called ToggleConsole,
           Slept (JNum 50),
           Heard (EvStepComplete
                    \<lparr>saction = ''toggle_console'', success = True, sduration = 50,
                       serror = None\<rparr>)]"
proof -
  from toggleThenWait_run obtain t' where
    run: "executeStep (traced quietFake) (toggleThenWait 50) tracedStart =
            Some (Inl (ConditionNotMet (noWindow 400)), t')"
    and j: "journal t' =
           [Heard (EvStepStart ''toggle_console'' []),
            Called ToggleConsole,
            Slept (JNum 50),
            Called (FindWindow (JStr ''OpenMoHAA'')), Slept (JNum 200),
            Called (FindWindow (JStr ''OpenMoHAA'')), Slept (JNum 200),
            Heard (EvStepComplete
                     \<lparr>saction = ''toggle_console'', success = False, sduration = 450,
                        serror = Some (ConditionNotMet (noWindow 400))\<rparr>)]"
    by auto
  have w: "collab quietFake (SendCommand (JStr ''quit'')) (world fakeStart) =
     (Returned JNull, \<lparr>clock = 0, callLog = [SendCommand (JStr ''quit'')], aborts = 0\<rparr>)"
    by (simp add: quietFake_def fake_def answerAll_def fakeStart_def newEngine_def)
  have tc: "actionCall ''command'' [(''command'', JStr ''quit'')] = Some (SendCommand (JStr ''quit''))"
    by (simp add: actionCall_def getProp_def)
  have jt: "journal tracedStart = []" by (simp add: journal_def tracedStart_def newEngine_def)
  have 1: "''frobnicate'' \<notin> set vocabulary" by (simp add: vocabulary_def)
  have 2: "''screenshot'' \<in> set vocabulary" by (simp add: vocabulary_def)
  note u = executeStep_order [where act = "''frobnicate''" and ctx = quietFake and p = "[]"
      and s = fakeStart, THEN conjunct1, rule_format, OF 1]
  note k = executeStep_order [where act = "''screenshot''" and ctx = quietFake and p = "[]"
      and s = fakeStart and a = "''screenshot''", THEN conjunct2, THEN conjunct1, rule_format,
      OF 2]
  note d = executeStep_order [where act = "''command''" and ctx = quietFake
      and p = "[(''command'', JStr ''quit'')]" and s = fakeStart
      and c = "SendCommand (JStr ''quit'')" and v = JNull
      and w' = "\<lparr>clock = 0, callLog = [SendCommand (JStr ''quit'')], aborts = 0\<rparr>"
      and t = tracedStart, THEN conjunct2, THEN conjunct2, THEN conjunct1, rule_format, OF tc]
  note o = executeStep_order [where ctx = quietFake and step = "toggleThenWait 50"
      and t = tracedStart and res = "Inl (ConditionNotMet (noWindow 400))" and t' = t',
      THEN conjunct2, THEN conjunct2, THEN conjunct2, THEN conjunct2, THEN conjunct2,
      THEN conjunct2, THEN conjunct2, THEN conjunct2, THEN conjunct2, rule_format, OF run]
  have 3: "\<exists>s'. executeAction quietFake ''command'' [(''command'', JStr ''quit'')] fakeStart =
            Some (Inr (), s') \<and>
         s'\<lparr>variables := variables fakeStart\<rparr> =
           resume quietFake \<lparr>clock = 0, callLog = [SendCommand (JStr ''quit'')], aborts = 0\<rparr>
             fakeStart"
    using d [THEN conjunct2, THEN conjunct2, THEN conjunct1, rule_format, OF w]
    by (simp add: replyOutcome_def)
  have 4: "journalAfter (executeAction (traced quietFake) ''command'' [(''command'', JStr ''quit'')])
     tracedStart = Some [Called (SendCommand (JStr ''quit''))]"
    using d [THEN conjunct2, THEN conjunct2, THEN conjunct2] by (simp add: jt)
  from o have "\<exists>A D W sr. journal t' =
       journal tracedStart @
       [Heard (EvStepStart (action (toggleThenWait 50)) (params (toggleThenWait 50)))] @
       A @ D @ W @ [Heard (EvStepComplete sr)] \<and>
       list_all inner A \<and> list_all polling W"
    by (elim exE conjE) (intro exI conjI, assumption+)
  hence 5: "\<exists>A D W sr. journal t' =
                        [Heard (EvStepStart ''toggle_console'' [])] @ A @ D @ W @
                        [Heard (EvStepComplete sr)] \<and>
                      list_all inner A \<and> list_all polling W"
    by (simp add: jt toggleThenWait_def)
  from run j 5 have 6: "\<exists>t'. executeStep (traced quietFake) (toggleThenWait 50) tracedStart =
            Some (Inl (ConditionNotMet (noWindow 400)), t') \<and>
         journal t' =
           [Heard (EvStepStart ''toggle_console'' []),
            Called ToggleConsole,
            Slept (JNum 50),
            Called (FindWindow (JStr ''OpenMoHAA'')), Slept (JNum 200),
            Called (FindWindow (JStr ''OpenMoHAA'')), Slept (JNum 200),
            Heard (EvStepComplete
                     \<lparr>saction = ''toggle_console'', success = False, sduration = 450,
                        serror = Some (ConditionNotMet (noWindow 400))\<rparr>)] \<and>
         (\<exists>A D W sr. journal t' =
                        [Heard (EvStepStart ''toggle_console'' [])] @ A @ D @ W @
                        [Heard (EvStepComplete sr)] \<and>
                      list_all inner A \<and> list_all polling W)"
    by (intro exI [of _ t'] conjI)
  show ?thesis
    by (intro conjI) (rule 1 u 2 k tc w 3 4 6 toggleThenPause_run)+
qed


text \<open>
  A step whose \<^verbatim>\<open>waitAfter\<close> is set to 0: the action is followed at once by the notification
  that the step is complete.  No timer is set, where a delay of 0 ms would have set one.
\<close>

theorem executeStep_order_counterexample:
  "waitAfter (toggleThenPause 0) = Some 0 \<and>
   journalAfter (executeStep (traced quietFake) (toggleThenPause 0)) tracedStart =
   Some [Heard (EvStepStart ''toggle_console'' []),
         Called ToggleConsole,
         Heard (EvStepComplete
                  \<lparr>saction = ''toggle_console'', success = True, sduration = 0,
                     serror = None\<rparr>)]"
  by (simp add: run_defs traced_defs)


subsection \<open>Waiting for a condition that is never met\<close>

text \<open>
  C6 (amended).  Let the timeout in force be the condition's \<^verbatim>\<open>timeout\<close>, or 30000 ms when
  that is 0.  On a runtime with a steady clock, the wait for a condition that no check finds
  true returns \<^verbatim>\<open>false\<close>, and does so no earlier than the timeout in force; when that is not
  positive it returns at once, without a check.  When a collaborator call takes at most \<open>d\<close> ms
  and the poll timer fires at most \<open>j\<close> ms late, it returns less than \<open>200 + j + d\<close> ms after
  the timeout in force (one poll interval and one check).  Between two checks lies exactly one
  timer of 200 ms.  A step with such a condition, whose action completes, throws
  \<^verbatim>\<open>Condition not met\<close>.
\<close>

theorem waitForCondition_times_out:
  assumes steady: "steadyClock ctx"
    and never: "\<And>s1. fst (checkCondition ctx cond s1) = Inr False"
  shows "(\<exists>s'. waitForCondition ctx cond s = Some (Inr False, s') \<and>
              (if ctimeout cond = 0 then 30000 else ctimeout cond)
                 \<le> now ctx (world s') - now ctx (world s) \<and>
              ((if ctimeout cond = 0 then 30000 else ctimeout cond) \<le> 0 \<longrightarrow> s' = s) \<and>
              (\<forall>d j. boundedLatency ctx d j \<longrightarrow>
                     now ctx (world s') - now ctx (world s)
                       < max (if ctimeout cond = 0 then 30000 else ctimeout cond) 0
                           + 200 + j + d)) \<and>
         (now ctx (world s1) - st < tmo \<longrightarrow>
            waitForCondition_loop ctx cond st tmo s1 =
              waitForCondition_loop ctx cond st tmo
                (delay ctx (JNum 200) (snd (checkCondition ctx cond s1)))) \<and>
         (condition step = Some cond \<and>
          map_option fst (executeAction ctx (action step) (params step)
                            (emit ctx (EvStepStart (action step) (params step)) s))
            = Some (Inr ()) \<longrightarrow>
            map_option fst (executeStep ctx step s) = Some (Inl (ConditionNotMet cond)))"
proof (intro conjI impI)
  have T: "(if ctimeout cond = 0 then 30000 else ctimeout cond) = effectiveTimeout cond"
    by (simp add: effectiveTimeout_def)
  show "\<exists>s'. waitForCondition ctx cond s = Some (Inr False, s') \<and>
              (if ctimeout cond = 0 then 30000 else ctimeout cond)
                 \<le> now ctx (world s') - now ctx (world s) \<and>
              ((if ctimeout cond = 0 then 30000 else ctimeout cond) \<le> 0 \<longrightarrow> s' = s) \<and>
              (\<forall>d j. boundedLatency ctx d j \<longrightarrow>
                     now ctx (world s') - now ctx (world s)
                       < max (if ctimeout cond = 0 then 30000 else ctimeout cond) 0
                           + 200 + j + d)"
    unfolding T by (rule waitForCondition_never [OF steady never])
next
  assume live: "now ctx (world s1) - st < tmo"
  obtain s2 where chk: "checkCondition ctx cond s1 = (Inr False, s2)"
    using never [of s1] by (cases "checkCondition ctx cond s1") simp
  show "waitForCondition_loop ctx cond st tmo s1 =
          waitForCondition_loop ctx cond st tmo
            (delay ctx (JNum 200) (snd (checkCondition ctx cond s1)))"
    by (subst waitForCondition_loop.simps) (simp add: live chk)
next
  assume a: "condition step = Some cond \<and>
             map_option fst (executeAction ctx (action step) (params step)
                            (emit ctx (EvStepStart (action step) (params step)) s))
               = Some (Inr ())"
  then obtain s2 where act: "executeAction ctx (action step) (params step)
                            (emit ctx (EvStepStart (action step) (params step)) s)
                          = Some (Inr (), s2)" by auto
  from waitForCondition_never [OF steady never, of "afterDelay ctx step s2"] obtain s4 where
    "waitForCondition ctx cond (afterDelay ctx step s2) = Some (Inr False, s4)" by blast
  with a act show "map_option fst (executeStep ctx step s) = Some (Inl (ConditionNotMet cond))"
    by (simp add: executeStep_by_cases stepFails_def)
qed

theorem waitForCondition_times_out_witness:
  "steadyClock quietFake \<and> fst (checkCondition quietFake (noWindow 1000) fakeStart) = Inr False \<and>
   boundedLatency quietFake 0 0 \<and>
   (\<exists>s'. waitForCondition quietFake (noWindow 1000) fakeStart = Some (Inr False, s') \<and>
         1000 \<le> clock (world s') \<and> clock (world s') < 1200) \<and>
   now quietFake (world fakeStart) - 0 < 1000 \<and>
   waitForCondition_loop quietFake (noWindow 1000) 0 1000 fakeStart =
     waitForCondition_loop quietFake (noWindow 1000) 0 1000
       (delay quietFake (JNum 200) (snd (checkCondition quietFake (noWindow 1000) fakeStart))) \<and>
   map_option fst (executeStep quietFake
       \<lparr>action = ''toggle_console'', params = [], timeout = None, waitAfter = Some 50,
        condition = Some (noWindow 1000)\<rparr> fakeStart)
     = Some (Inl (ConditionNotMet (noWindow 1000)))"
proof -
  let ?step = "\<lparr>action = ''toggle_console'', params = [], timeout = None, waitAfter = Some 50,
                condition = Some (noWindow 1000)\<rparr>"
  have act: "map_option fst (executeAction quietFake (action ?step) (params ?step)
               (emit quietFake (EvStepStart (action ?step) (params ?step)) fakeStart))
             = Some (Inr ())"
    by (simp add: executeAction_def perform_def bindE_def lift_def ok_def await_def
        quietFake_def fake_def answerAll_def)
  have t: "ctimeout (noWindow 1000) = 1000" by (simp add: noWindow_def)
  have z: "clock (world fakeStart) = 0" by (simp add: fakeStart_def newEngine_def)
  have n: "now quietFake = clock" by (simp add: quietFake_def fake_def)
  have live: "now quietFake (world fakeStart) - 0 < 1000"
    unfolding n z by simp
  from waitForCondition_times_out [OF quietFake_steady noWindow_never,
        of 1000 fakeStart fakeStart 0 1000 ?step] live
  have cad: "waitForCondition_loop quietFake (noWindow 1000) 0 1000 fakeStart =
     waitForCondition_loop quietFake (noWindow 1000) 0 1000
       (delay quietFake (JNum 200) (snd (checkCondition quietFake (noWindow 1000) fakeStart)))"
    by blast
  from waitForCondition_times_out [OF quietFake_steady noWindow_never,
        of 1000 fakeStart fakeStart 0 0 ?step] act
  obtain s' where run: "waitForCondition quietFake (noWindow 1000) fakeStart = Some (Inr False, s')"
    and low: "1000 \<le> clock (world s')"
    and up: "\<forall>d j. boundedLatency quietFake d j \<longrightarrow> clock (world s') < 1200 + j + d"
    and stp: "map_option fst (executeStep quietFake ?step fakeStart)
                = Some (Inl (ConditionNotMet (noWindow 1000)))"
    unfolding t z n by (auto simp: max_def)
  from up quietFake_latency have "clock (world s') < 1200 + 0 + 0" by blast
  with run low stp quietFake_latency noWindow_never [of 1000 fakeStart] quietFake_steady live cad
  show ?thesis by auto
qed

text \<open>
  With a timeout of 0, on a runtime with exact timers and checks that take no time, the wait
  returns no earlier than after 30000 ms, not within 200 ms.
\<close>

theorem waitForCondition_times_out_counterexample:
  "ctimeout (noWindow 0) = 0 \<and> boundedLatency quietFake 0 0 \<and>
   returnsFalseNoEarlier quietFake (noWindow 0) fakeStart 30000"
proof -
  have t: "ctimeout (noWindow 0) = 0" by (simp add: noWindow_def)
  from waitForCondition_never [OF quietFake_steady noWindow_never, of 0 fakeStart] t
  have "returnsFalseNoEarlier quietFake (noWindow 0) fakeStart 30000"
    unfolding returnsFalseNoEarlier_def by (auto simp: effectiveTimeout_def)
  with t quietFake_latency show ?thesis by simp
qed

subsection \<open>The pixel colour condition\<close>

text \<open>
  C7 (amended).  For a \<^verbatim>\<open>pixel_color\<close> condition whose \<^verbatim>\<open>expected\<close> parameter is a colour
  \<open>e\<close> and whose \<^verbatim>\<open>tolerance || 10\<close> is a number \<open>t\<close>, the check samples the pixel at the
  given coordinates once, and

  \<^item> when the sample is returned, the check is true exactly when the sample is truthy and,
    on each of the three channels on its own, the difference as the code computes it (the
    exact difference rounded to a binary64 number, then its magnitude) is a finite number
    that is at most \<open>t\<close>;
  \<^item> when all six channel values are integers and no exact difference exceeds \<open>2 ^ 53\<close> in
    magnitude (8-bit and 16-bit channels are far inside), the computed differences are the
    exact ones: the check is true exactly when the sample is truthy and
    \<open>\<bar>actual - expected\<bar> \<le> t\<close> on each channel;
  \<^item> when \<open>t\<close> is at most 10 and the exact difference is 11 or more in magnitude on some
    channel, whatever the numbers, the check is false;
  \<^item> when the sampling call rejects, the check throws the rejection;
  \<^item> the tolerance in force \<open>t\<close> is the \<^verbatim>\<open>tolerance\<close> parameter when that is a number other
    than 0, and 10 otherwise, that is when the parameter is absent, \<^verbatim>\<open>null\<close> or 0.
\<close>

theorem checkCondition_pixel_color:
  assumes kind: "ctype cond = ''pixel_color''"
    and expected: "asPixelColor (getProp (cparams cond) ''expected'') = Some e"
    and tolerance: "asNumber (orElse (getProp (cparams cond) ''tolerance'') (JNum 10)) = Some t"
  shows "(collab ctx (GetPixelColor (getProp (cparams cond) ''x'') (getProp (cparams cond) ''y''))
            (world s) = (Returned actual, w') \<and>
          (\<not> truthy actual \<or> asPixelColor actual = Some a) \<longrightarrow>
            checkCondition ctx cond s =
              (Inr (truthy actual \<and>
                    (\<exists>d. roundDouble (r a - r e) = Some d \<and> \<bar>d\<bar> \<le> t) \<and>
                    (\<exists>d. roundDouble (g a - g e) = Some d \<and> \<bar>d\<bar> \<le> t) \<and>
                    (\<exists>d. roundDouble (b a - b e) = Some d \<and> \<bar>d\<bar> \<le> t)),
               resume ctx w' s) \<and>
            (r a \<in> \<int> \<and> g a \<in> \<int> \<and> b a \<in> \<int> \<and> r e \<in> \<int> \<and> g e \<in> \<int> \<and> b e \<in> \<int> \<and>
             \<bar>r a - r e\<bar> \<le> 2 ^ 53 \<and> \<bar>g a - g e\<bar> \<le> 2 ^ 53 \<and> \<bar>b a - b e\<bar> \<le> 2 ^ 53 \<longrightarrow>
               fst (checkCondition ctx cond s) =
                 Inr (truthy actual \<and>
                      \<bar>r a - r e\<bar> \<le> t \<and> \<bar>g a - g e\<bar> \<le> t \<and> \<bar>b a - b e\<bar> \<le> t)) \<and>
            (t \<le> 10 \<and> (11 \<le> \<bar>r a - r e\<bar> \<or> 11 \<le> \<bar>g a - g e\<bar> \<or> 11 \<le> \<bar>b a - b e\<bar>) \<longrightarrow>
               fst (checkCondition ctx cond s) = Inr False)) \<and>
         (collab ctx (GetPixelColor (getProp (cparams cond) ''x'') (getProp (cparams cond) ''y''))
            (world s) = (Threw m, w') \<longrightarrow>
            checkCondition ctx cond s = (Inl (Rejected m), resume ctx w' s)) \<and>
         t = (case getProp (cparams cond) ''tolerance'' of
                JNum n \<Rightarrow> if n = 0 then 10 else n
              | _ \<Rightarrow> 10)"
proof -
  let ?x = "getProp (cparams cond) ''x''" and ?y = "getProp (cparams cond) ''y''"
  have chk: "checkCondition ctx cond s = checkPixelColor ctx ?x ?y e t s"
    using kind expected tolerance by (simp add: checkCondition_def)
  have lessEq: "\<And>u v. lessEq (absDiff u v) t = (\<exists>d. roundDouble (u - v) = Some d \<and> \<bar>d\<bar> \<le> t)"
    by (simp add: lessEq_def absDiff_def split: option.split)
  have force: "t = (case getProp (cparams cond) ''tolerance'' of
                      JNum n \<Rightarrow> if n = 0 then 10 else n | _ \<Rightarrow> 10)"
    using tolerance
    by (cases "getProp (cparams cond) ''tolerance''") (auto simp: orElse_def split: if_splits)
  have rejected: "checkCondition ctx cond s = (Inl (Rejected m), resume ctx w' s)"
    if "collab ctx (GetPixelColor ?x ?y) (world s) = (Threw m, w')"
    unfolding chk using that by (simp add: checkPixelColor_def await_def)
  have returned: "checkCondition ctx cond s =
      (Inr (truthy actual \<and>
            (\<exists>d. roundDouble (r a - r e) = Some d \<and> \<bar>d\<bar> \<le> t) \<and>
            (\<exists>d. roundDouble (g a - g e) = Some d \<and> \<bar>d\<bar> \<le> t) \<and>
            (\<exists>d. roundDouble (b a - b e) = Some d \<and> \<bar>d\<bar> \<le> t)),
       resume ctx w' s)"
    if sample: "collab ctx (GetPixelColor ?x ?y) (world s) = (Returned actual, w')"
      and typed: "\<not> truthy actual \<or> asPixelColor actual = Some a"
  proof (cases "truthy actual")
    case False
    with sample show ?thesis unfolding chk by (simp add: checkPixelColor_def await_def)
  next
    case True
    with typed have "asPixelColor actual = Some a" by simp
    with True sample show ?thesis
      unfolding chk by (simp add: checkPixelColor_def await_def Let_def lessEq)
  qed
  have exact: "fst (checkCondition ctx cond s) =
      Inr (truthy actual \<and> \<bar>r a - r e\<bar> \<le> t \<and> \<bar>g a - g e\<bar> \<le> t \<and> \<bar>b a - b e\<bar> \<le> t)"
    if sample: "collab ctx (GetPixelColor ?x ?y) (world s) = (Returned actual, w')"
      and typed: "\<not> truthy actual \<or> asPixelColor actual = Some a"
      and ints: "r a \<in> \<int>" "g a \<in> \<int>" "b a \<in> \<int>" "r e \<in> \<int>" "g e \<in> \<int>" "b e \<in> \<int>"
      and small: "\<bar>r a - r e\<bar> \<le> 2 ^ 53" "\<bar>g a - g e\<bar> \<le> 2 ^ 53" "\<bar>b a - b e\<bar> \<le> 2 ^ 53"
  proof -
    have "roundDouble (r a - r e) = Some (r a - r e) \<or> roundDouble (r a - r e) = Some (- (r a - r e))"
      using absDiff_exact [OF ints(1) ints(4) small(1)]
      by (auto simp: absDiff_def abs_if split: if_splits)
    hence 1: "(\<exists>d. roundDouble (r a - r e) = Some d \<and> \<bar>d\<bar> \<le> t) = (\<bar>r a - r e\<bar> \<le> t)"
      using absDiff_exact [OF ints(1) ints(4) small(1)] by (auto simp: absDiff_def)
    have 2: "(\<exists>d. roundDouble (g a - g e) = Some d \<and> \<bar>d\<bar> \<le> t) = (\<bar>g a - g e\<bar> \<le> t)"
      using absDiff_exact [OF ints(2) ints(5) small(2)] by (auto simp: absDiff_def)
    have 3: "(\<exists>d. roundDouble (b a - b e) = Some d \<and> \<bar>d\<bar> \<le> t) = (\<bar>b a - b e\<bar> \<le> t)"
      using absDiff_exact [OF ints(3) ints(6) small(3)] by (auto simp: absDiff_def)
    show ?thesis unfolding returned [OF sample typed] 1 2 3 by simp
  qed
  have far: "fst (checkCondition ctx cond s) = Inr False"
    if sample: "collab ctx (GetPixelColor ?x ?y) (world s) = (Returned actual, w')"
      and typed: "\<not> truthy actual \<or> asPixelColor actual = Some a"
      and tol: "t \<le> 10"
      and away: "11 \<le> \<bar>r a - r e\<bar> \<or> 11 \<le> \<bar>g a - g e\<bar> \<or> 11 \<le> \<bar>b a - b e\<bar>"
  proof -
    have within: "\<exists>d. roundDouble x = Some d \<and> \<bar>d\<bar> \<le> 10"
      if "\<exists>d. roundDouble x = Some d \<and> \<bar>d\<bar> \<le> t" for x
      using that tol by (meson order_trans)
    from away have "\<not> ((\<exists>d. roundDouble (r a - r e) = Some d \<and> \<bar>d\<bar> \<le> t) \<and>
                    (\<exists>d. roundDouble (g a - g e) = Some d \<and> \<bar>d\<bar> \<le> t) \<and>
                    (\<exists>d. roundDouble (b a - b e) = Some d \<and> \<bar>d\<bar> \<le> t))"
      using roundDouble_eleven [of "r a - r e"] roundDouble_eleven [of "g a - g e"]
        roundDouble_eleven [of "b a - b e"] within by blast
    thus ?thesis unfolding returned [OF sample typed] by simp
  qed
  show ?thesis using returned exact far rejected force by blast
qed

text \<open>
  Three conditions on a runtime that answers every call with the same sample: a blue
  channel 11 away with tolerance 10, all channels within the default tolerance, and a red
  channel whose exact difference \<open>2 ^ 53 + 1\<close> exceeds the tolerance \<open>2 ^ 53\<close> while the
  computed difference, rounded to \<open>2 ^ 53\<close>, does not.
\<close>

theorem checkCondition_pixel_color_witness:
  "fst (checkCondition (fake (answerAll (colorObj 100 100 111)) never)
          \<lparr>ctype = ''pixel_color'',
           cparams = [(''x'', JNum 3), (''y'', JNum 4), (''expected'', colorObj 100 100 100),
                      (''tolerance'', JNum 10)],
           ctimeout = 1000\<rparr> fakeStart) = Inr False \<and>
   fst (checkCondition (fake (answerAll (colorObj 90 100 110)) never)
          \<lparr>ctype = ''pixel_color'',
           cparams = [(''x'', JNum 3), (''y'', JNum 4), (''expected'', colorObj 100 100 100)],
           ctimeout = 1000\<rparr> fakeStart) = Inr True \<and>
   fst (checkCondition (fake (answerAll (colorObj 9007199254740992 0 0)) never)
          \<lparr>ctype = ''pixel_color'',
           cparams = [(''x'', JNum 3), (''y'', JNum 4), (''expected'', colorObj (- 1) 0 0),
                      (''tolerance'', JNum 9007199254740992)],
           ctimeout = 1000\<rparr> fakeStart) = Inr True"
  using checkCondition_pixel_color
          [of "\<lparr>ctype = ''pixel_color'',
                cparams = [(''x'', JNum 3), (''y'', JNum 4), (''expected'', colorObj 100 100 100),
                           (''tolerance'', JNum 10)],
                ctimeout = 1000\<rparr>" "\<lparr>r = 100, g = 100, b = 100\<rparr>" 10
              "fake (answerAll (colorObj 100 100 111)) never" fakeStart
              "colorObj 100 100 111" "\<lparr>clock = 0, callLog = [GetPixelColor (JNum 3) (JNum 4)], aborts = 0\<rparr>"
              "\<lparr>r = 100, g = 100, b = 111\<rparr>"]
        checkCondition_pixel_color
          [of "\<lparr>ctype = ''pixel_color'',
                cparams = [(''x'', JNum 3), (''y'', JNum 4), (''expected'', colorObj 100 100 100)],
                ctimeout = 1000\<rparr>" "\<lparr>r = 100, g = 100, b = 100\<rparr>" 10
              "fake (answerAll (colorObj 90 100 110)) never" fakeStart
              "colorObj 90 100 110" "\<lparr>clock = 0, callLog = [GetPixelColor (JNum 3) (JNum 4)], aborts = 0\<rparr>"
              "\<lparr>r = 90, g = 100, b = 110\<rparr>"]
        checkCondition_pixel_color
          [of "\<lparr>ctype = ''pixel_color'',
                cparams = [(''x'', JNum 3), (''y'', JNum 4), (''expected'', colorObj (- 1) 0 0),
                           (''tolerance'', JNum 9007199254740992)],
                ctimeout = 1000\<rparr>" "\<lparr>r = - 1, g = 0, b = 0\<rparr>" 9007199254740992
              "fake (answerAll (colorObj 9007199254740992 0 0)) never" fakeStart
              "colorObj 9007199254740992 0 0"
              "\<lparr>clock = 0, callLog = [GetPixelColor (JNum 3) (JNum 4)], aborts = 0\<rparr>"
              "\<lparr>r = 9007199254740992, g = 0, b = 0\<rparr>"]
  by (simp add: getProp_def orElse_def fake_def answerAll_def fakeStart_def newEngine_def
      roundDouble_numeral roundDouble_tie)

text \<open>
  With an explicit tolerance of 0 the check accepts a pixel that is 5 away from the expected
  colour on the red channel.  And with a tolerance of \<open>2 ^ 53\<close> it accepts a pixel whose red
  channel is \<open>2 ^ 53 + 1\<close> away from the expected one: the code compares the rounded
  difference.
\<close>

theorem checkCondition_pixel_color_counterexample:
  "fst (checkCondition (fake (answerAll (colorObj 5 0 0)) never)
          \<lparr>ctype = ''pixel_color'',
           cparams = [(''x'', JNum 0), (''y'', JNum 0), (''expected'', colorObj 0 0 0),
                      (''tolerance'', JNum 0)],
           ctimeout = 1000\<rparr> fakeStart) = Inr True \<and>
   \<not> \<bar>5 - 0\<bar> \<le> (0 :: rat) \<and>
   fst (checkCondition (fake (answerAll (colorObj 9007199254740992 0 0)) never)
          \<lparr>ctype = ''pixel_color'',
           cparams = [(''x'', JNum 0), (''y'', JNum 0), (''expected'', colorObj (- 1) 0 0),
                      (''tolerance'', JNum 9007199254740992)],
           ctimeout = 1000\<rparr> fakeStart) = Inr True \<and>
   \<not> \<bar>9007199254740992 - (- 1)\<bar> \<le> (9007199254740992 :: rat)"
  by (simp add: checkCondition_def checkPixelColor_def await_def getProp_def orElse_def
      fake_def answerAll_def fakeStart_def newEngine_def Let_def round_simps roundDouble_tie)

subsection \<open>The timeout condition and unknown conditions\<close>

text \<open>
  C8.  A condition of kind \<^verbatim>\<open>timeout\<close> is met, whatever its parameters, and nothing is
  called for it; a condition whose kind is none of the five known ones is not met, so that
  waiting for it ends with \<^verbatim>\<open>false\<close> once the clock is steady.
\<close>

theorem checkCondition_timeout_and_unrecognized:
  "(ctype cond = ''timeout'' \<longrightarrow> checkCondition ctx cond s = (Inr True, s)) \<and>
   (ctype cond \<notin> {''console_pattern'', ''pixel_color'', ''cvar_value'', ''window_exists'',
                     ''timeout''} \<longrightarrow>
      checkCondition ctx cond s = (Inr False, s) \<and>
      (steadyClock ctx \<longrightarrow> (\<exists>s'. waitForCondition ctx cond s = Some (Inr False, s'))))"
proof (intro conjI impI)
  assume "ctype cond = ''timeout''"
  then show "checkCondition ctx cond s = (Inr True, s)"
    by (simp add: checkCondition_def)
next
  assume other: "ctype cond \<notin> {''console_pattern'', ''pixel_color'', ''cvar_value'',
                                  ''window_exists'', ''timeout''}"
  then show "checkCondition ctx cond s = (Inr False, s)"
    by (simp add: checkCondition_def)
  assume steady: "steadyClock ctx"
  have never: "fst (checkCondition ctx cond s1) = Inr False" for s1
    using other by (simp add: checkCondition_def)
  obtain k :: nat where
    "now ctx (world s) + effectiveTimeout cond - now ctx (world s) \<le> 200 * of_nat k"
    using ex_poll_bound by blast
  from waitForCondition_loop_never [OF steady never this]
  show "\<exists>s'. waitForCondition ctx cond s = Some (Inr False, s')"
    unfolding waitForCondition_def by blast
qed

theorem checkCondition_timeout_and_unrecognized_witness:
  "checkCondition (fake (answerAll JNull) never)
     \<lparr>ctype = ''timeout'', cparams = [(''pattern'', JStr ''x'')], ctimeout = 1000\<rparr> fakeStart
     = (Inr True, fakeStart) \<and>
   checkCondition (fake (answerAll JNull) never)
     \<lparr>ctype = ''file_exists'', cparams = [], ctimeout = 1000\<rparr> fakeStart
     = (Inr False, fakeStart) \<and>
   (\<exists>s'. waitForCondition (fake (answerAll JNull) never)
     \<lparr>ctype = ''file_exists'', cparams = [], ctimeout = 1000\<rparr> fakeStart = Some (Inr False, s'))"
  using checkCondition_timeout_and_unrecognized
          [of "\<lparr>ctype = ''timeout'', cparams = [(''pattern'', JStr ''x'')], ctimeout = 1000\<rparr>"
              "fake (answerAll JNull) never" fakeStart]
        checkCondition_timeout_and_unrecognized
          [of "\<lparr>ctype = ''file_exists'', cparams = [], ctimeout = 1000\<rparr>"
              "fake (answerAll JNull) never" fakeStart]
        fake_steady [of "answerAll JNull" never]
  by simp

subsection \<open>Variables outlive runs\<close>

text \<open>
  C9.  A variable set through \<open>setVariable\<close> is read back by \<open>getVariable\<close>, also after a
  later run of a script on the same engine that is not instructed to write it: a run changes
  no variable other than those its \<^verbatim>\<open>set_variable\<close>, \<^verbatim>\<open>get_cvar\<close> (\<^verbatim>\<open>storeAs\<close>) and
  \<^verbatim>\<open>find_image\<close> (\<^verbatim>\<open>storeX\<close>, \<^verbatim>\<open>storeY\<close>) steps name, and it does not clear them at its
  start.  \<open>clearVariables\<close> removes all of them, and \<open>getVariable\<close> is then \<^verbatim>\<open>undefined\<close>.
\<close>

theorem variables_outlive_runs:
  "getVariable (setVariable k v s) k = v \<and>
   (steadyClock ctx \<and> JStr k \<notin> scriptWrites script \<longrightarrow>
      (\<exists>res s'. runScript ctx script (setVariable k v s) = Some (Inr res, s') \<and>
                getVariable s' k = v)) \<and>
   (steadyClock ctx \<longrightarrow>
      (\<exists>res s'. runScript ctx script s = Some (Inr res, s') \<and>
                (\<forall>key. key \<notin> scriptWrites script \<longrightarrow> variables s' key = variables s key))) \<and>
   executeAction ctx ''set_variable'' p s =
     Some (Inr (), s\<lparr>variables := (variables s)(getProp p ''name'' \<mapsto> getProp p ''value'')\<rparr>) \<and>
   variables (clearVariables s) = Map.empty \<and>
   getVariable (clearVariables s) k = JUndefined"
proof (intro conjI impI)
  show "getVariable (setVariable k v s) k = v"
    by (simp add: getVariable_def setVariable_def variablesGet_def)
next
  assume a: "steadyClock ctx \<and> JStr k \<notin> scriptWrites script"
  from runScript_variables [of ctx script "setVariable k v s"] a obtain res s' where
    "runScript ctx script (setVariable k v s) = Some (Inr res, s')"
    and "variables s' (JStr k) = variables (setVariable k v s) (JStr k)"
    by blast
  then show "\<exists>res s'. runScript ctx script (setVariable k v s) = Some (Inr res, s') \<and>
                      getVariable s' k = v"
    by (simp add: getVariable_def setVariable_def variablesGet_def)
next
  assume "steadyClock ctx"
  then show "\<exists>res s'. runScript ctx script s = Some (Inr res, s') \<and>
               (\<forall>key. key \<notin> scriptWrites script \<longrightarrow> variables s' key = variables s key)"
    by (rule runScript_variables)
next
  show "executeAction ctx ''set_variable'' p s =
     Some (Inr (), s\<lparr>variables := (variables s)(getProp p ''name'' \<mapsto> getProp p ''value'')\<rparr>)"
    by (simp add: executeAction_def variablesSet_def)
next
  show "variables (clearVariables s) = Map.empty"
    by (simp add: clearVariables_def)
next
  show "getVariable (clearVariables s) k = JUndefined"
    by (simp add: getVariable_def clearVariables_def variablesGet_def)
qed

theorem variables_outlive_runs_witness:
  "steadyClock quietFake \<and> JStr ''x'' \<notin> scriptWrites chainScript \<and>
   getVariable (setVariable ''x'' (JNum 5) fakeStart) ''x'' = JNum 5 \<and>
   (\<exists>res s'. runScript quietFake chainScript (setVariable ''x'' (JNum 5) fakeStart)
               = Some (Inr res, s') \<and>
             getVariable s' ''x'' = JNum 5) \<and>
   (\<exists>res s'. runScript quietFake chainScript fakeStart = Some (Inr res, s') \<and>
             (\<forall>key. key \<notin> scriptWrites chainScript \<longrightarrow>
                    variables s' key = variables fakeStart key)) \<and>
   getVariable (clearVariables (setVariable ''x'' (JNum 5) fakeStart)) ''x'' = JUndefined"
  using variables_outlive_runs [of "''x''" "JNum 5" fakeStart quietFake chainScript]
        variables_outlive_runs [of "''x''" "JNum 5" "setVariable ''x'' (JNum 5) fakeStart"
          quietFake chainScript]
        quietFake_steady chainScript_writes
  by simp

subsection \<open>Waits that time out\<close>



end
